theory Spec2Isabelle
  imports Complex_Main "HOL-Library.Char_ord" "HOL-Library.List_Lexorder"
    "HOL-Library.Product_Lexorder" "HOL-Library.AList" "HOL-Library.Sublist"
    "HOL-Library.Multiset"
begin

section \<open>Python values and exceptions\<close>

text \<open>
  A Python \<^verbatim>\<open>float\<close> is a binary64 value: a finite number (\<open>Fin x\<close> holds its exact
  value, \<open>Fin 0\<close> is the positive zero), the negative zero, an infinity or a NaN.
\<close>

datatype double = Fin rat | NegZero | PosInf | NegInf | NaN

text \<open>
  The collector works on the values that \<^verbatim>\<open>response.json()\<close> returns: \<^verbatim>\<open>None\<close>,
  booleans, numbers, strings, lists and dictionaries. A number is a Python \<^verbatim>\<open>int\<close>,
  which has no bound, or a \<^verbatim>\<open>float\<close>. A dictionary is an association list read with
  \<open>map_of\<close>.
\<close>

datatype json =
    JNull
  | JBool bool
  | JInt int
  | JFloat double
  | JStr string
  | JArr "json list"
  | JObj "(string \<times> json) list"

text \<open>
  The exceptions that the modelled code can raise. \<open>RequestFailed\<close> stands for whatever
  \<^verbatim>\<open>requests.get\<close>, \<^verbatim>\<open>raise_for_status\<close> or \<^verbatim>\<open>response.json\<close> raise; \<open>ReadFailed\<close> and
  \<open>WriteFailed\<close> for what \<^verbatim>\<open>pd.read_parquet\<close> and \<^verbatim>\<open>DataFrame.to_parquet\<close> raise.
\<close>

datatype error =
    KeyError
  | TypeError
  | OverflowError
  | AttributeError
  | ValueError
  | RequestFailed
  | ReadFailed
  | WriteFailed

definition bind_err :: "error + 'a \<Rightarrow> ('a \<Rightarrow> error + 'b) \<Rightarrow> error + 'b" where
  "bind_err m f = (case m of Inl e \<Rightarrow> Inl e | Inr x \<Rightarrow> f x)"

text \<open>Truth value of a Python object, as \<^verbatim>\<open>if x:\<close> tests it.\<close>

fun truthy :: "json \<Rightarrow> bool" where
  "truthy JNull = False"
| "truthy (JBool b) = b"
| "truthy (JInt i) = (i \<noteq> 0)"
| "truthy (JFloat d) = (d \<noteq> Fin 0 \<and> d \<noteq> NegZero)"
| "truthy (JStr s) = (s \<noteq> [])"
| "truthy (JArr xs) = (xs \<noteq> [])"
| "truthy (JObj kvs) = (kvs \<noteq> [])"

text \<open>\<^verbatim>\<open>d.get(k, dflt)\<close>: only a dictionary has the method.\<close>

definition get_default :: "(string \<times> json) list \<Rightarrow> string \<Rightarrow> json \<Rightarrow> json" where
  "get_default kvs k dflt = (case map_of kvs k of None \<Rightarrow> dflt | Some v \<Rightarrow> v)"

fun dict_get :: "json \<Rightarrow> string \<Rightarrow> json \<Rightarrow> error + json" where
  "dict_get (JObj kvs) k dflt = Inr (get_default kvs k dflt)"
| "dict_get _ k dflt = Inl AttributeError"

text \<open>\<^verbatim>\<open>d[k]\<close> with a string key: \<^verbatim>\<open>KeyError\<close> on a dictionary without the key,
  \<^verbatim>\<open>TypeError\<close> on every other kind of value.\<close>

fun subscript :: "json \<Rightarrow> string \<Rightarrow> error + json" where
  "subscript (JObj kvs) k = (case map_of kvs k of None \<Rightarrow> Inl KeyError | Some v \<Rightarrow> Inr v)"
| "subscript _ k = Inl TypeError"

section \<open>Floating-point arithmetic\<close>

text \<open>
  Rounding of an exact result to binary64, to the nearest value and to the even
  significand on a tie. \<open>bit_length n\<close> is the number of binary digits of \<open>n\<close>,
  \<open>pow2 k\<close> is \<open>2\<close> to the power \<open>k\<close>, and \<open>floor_log2 a\<close>, for a positive \<open>a\<close>, is the
  exponent \<open>e\<close> with \<open>pow2 e \<le> a < pow2 (e + 1)\<close>.
\<close>

fun bit_length :: "nat \<Rightarrow> nat" where
  "bit_length n = (if n = 0 then 0 else Suc (bit_length (n div 2)))"

declare bit_length.simps [simp del]

definition pow2 :: "int \<Rightarrow> rat" where
  "pow2 k = (if 0 \<le> k then 2 ^ nat k else 1 / 2 ^ nat (- k))"

definition floor_log2 :: "rat \<Rightarrow> int" where
  "floor_log2 a =
     (if 1 \<le> a then int (bit_length (nat \<lfloor>a\<rfloor>)) - 1
      else - int (bit_length (nat (\<lceil>1 / a\<rceil> - 1))))"

definition round_half_even :: "rat \<Rightarrow> int" where
  "round_half_even y =
     (let n = \<lfloor>y\<rfloor>; r = y - of_int n
      in if r < 1 / 2 then n else if 1 / 2 < r then n + 1 else if even n then n else n + 1)"

text \<open>
  The significand has 53 bits; below \<open>pow2 (- 1022)\<close> the spacing stays \<open>pow2 (- 1074)\<close>
  (subnormal numbers); a result that rounds to \<open>pow2 1024\<close> or more is an infinity; a
  non-zero result that rounds to nothing keeps its sign.
\<close>

definition round_double :: "rat \<Rightarrow> double" where
  "round_double x =
     (if x = 0 then Fin 0
      else
        let a = \<bar>x\<bar>;
            e = max (floor_log2 a) (- 1022);
            q = pow2 (e - 52);
            n = round_half_even (a / q);
            m = of_int n * q
        in if pow2 1024 \<le> m then (if 0 < x then PosInf else NegInf)
           else if n = 0 then (if 0 < x then Fin 0 else NegZero)
           else Fin (if 0 < x then m else - m))"

text \<open>\<^verbatim>\<open>x + y\<close> on two floats.\<close>

fun double_add :: "double \<Rightarrow> double \<Rightarrow> double" where
  "double_add NaN y = NaN"
| "double_add x NaN = NaN"
| "double_add PosInf NegInf = NaN"
| "double_add NegInf PosInf = NaN"
| "double_add PosInf y = PosInf"
| "double_add x PosInf = PosInf"
| "double_add NegInf y = NegInf"
| "double_add x NegInf = NegInf"
| "double_add NegZero NegZero = NegZero"
| "double_add NegZero (Fin y) = Fin y"
| "double_add (Fin x) NegZero = Fin x"
| "double_add (Fin x) (Fin y) = (if x + y = 0 then Fin 0 else round_double (x + y))"

text \<open>\<^verbatim>\<open>x / 2\<close> on a float.\<close>

fun double_half :: "double \<Rightarrow> double" where
  "double_half (Fin x) = (if x = 0 then Fin 0 else round_double (x / 2))"
| "double_half d = d"

text \<open>The conversion of an \<^verbatim>\<open>int\<close> to a \<^verbatim>\<open>float\<close>, which raises \<^verbatim>\<open>OverflowError\<close>
  when the integer is too large.\<close>

definition float_of_int :: "int \<Rightarrow> error + double" where
  "float_of_int i =
     (case round_double (of_int i) of
        PosInf \<Rightarrow> Inl OverflowError
      | NegInf \<Rightarrow> Inl OverflowError
      | d \<Rightarrow> Inr d)"

text \<open>
  \<^verbatim>\<open>a + b\<close> and \<^verbatim>\<open>x / 2\<close>. A boolean counts as the integer 0 or 1. Two integers are
  added exactly; an integer added to a float is converted first. An integer divided by 2
  gives the float nearest to the exact quotient, or \<^verbatim>\<open>OverflowError\<close>.
\<close>

datatype pynum = PyInt int | PyFloat double

fun as_number :: "json \<Rightarrow> pynum option" where
  "as_number (JInt i) = Some (PyInt i)"
| "as_number (JBool b) = Some (PyInt (if b then 1 else 0))"
| "as_number (JFloat d) = Some (PyFloat d)"
| "as_number _ = None"

fun num_add :: "pynum \<Rightarrow> pynum \<Rightarrow> error + json" where
  "num_add (PyInt i) (PyInt j) = Inr (JInt (i + j))"
| "num_add (PyFloat x) (PyFloat y) = Inr (JFloat (double_add x y))"
| "num_add (PyInt i) (PyFloat y) =
     bind_err (float_of_int i) (\<lambda>x. Inr (JFloat (double_add x y)))"
| "num_add (PyFloat x) (PyInt j) =
     bind_err (float_of_int j) (\<lambda>y. Inr (JFloat (double_add x y)))"

fun py_add :: "json \<Rightarrow> json \<Rightarrow> error + json" where
  "py_add (JStr s) (JStr t) = Inr (JStr (s @ t))"
| "py_add (JArr xs) (JArr ys) = Inr (JArr (xs @ ys))"
| "py_add a b =
     (case (as_number a, as_number b) of
        (Some m, Some n) \<Rightarrow> num_add m n
      | _ \<Rightarrow> Inl TypeError)"

definition py_half :: "json \<Rightarrow> error + json" where
  "py_half a =
     (case as_number a of
        Some (PyInt i) \<Rightarrow>
          (case round_double (of_int i / 2) of
             PosInf \<Rightarrow> Inl OverflowError
           | NegInf \<Rightarrow> Inl OverflowError
           | d \<Rightarrow> Inr (JFloat d))
      | Some (PyFloat x) \<Rightarrow> Inr (JFloat (double_half x))
      | None \<Rightarrow> Inl TypeError)"

section \<open>Dates and times\<close>

text \<open>
  A naive \<^verbatim>\<open>datetime\<close>: the calendar day and the time of day (in microseconds since
  midnight). Python orders two of them by year, month, day and then time of day.
\<close>

record datetime =
  year :: nat
  month :: nat
  day :: nat
  time_of_day :: nat

definition dt_key :: "datetime \<Rightarrow> nat \<times> nat \<times> nat \<times> nat" where
  "dt_key d = (year d, month d, day d, time_of_day d)"

definition dt_less :: "datetime \<Rightarrow> datetime \<Rightarrow> bool" where
  "dt_less a b = (dt_key a < dt_key b)"

definition leap_year :: "nat \<Rightarrow> bool" where
  "leap_year y = (y mod 4 = 0 \<and> (y mod 100 \<noteq> 0 \<or> y mod 400 = 0))"

definition days_in_month :: "nat \<Rightarrow> nat \<Rightarrow> nat" where
  "days_in_month y m =
     (if m = 2 then (if leap_year y then 29 else 28)
      else if m = 4 \<or> m = 6 \<or> m = 9 \<or> m = 11 then 30 else 31)"

text \<open>The dates that a \<^verbatim>\<open>datetime\<close> object can hold.\<close>

definition valid_date :: "nat \<Rightarrow> nat \<Rightarrow> nat \<Rightarrow> bool" where
  "valid_date y m d =
     (1 \<le> y \<and> y \<le> 9999 \<and> 1 \<le> m \<and> m \<le> 12 \<and> 1 \<le> d \<and> d \<le> days_in_month y m)"

text \<open>A calendar day from the year 1000 on: a day whose year is written with four
  digits.\<close>

definition valid_day :: "datetime \<Rightarrow> bool" where
  "valid_day d = (valid_date (year d) (month d) (day d) \<and> 1000 \<le> year d)"

text \<open>The calendar day of a \<^verbatim>\<open>datetime\<close>, ordered by year, then month, then day.\<close>

definition date_key :: "datetime \<Rightarrow> nat \<times> nat \<times> nat" where
  "date_key d = (year d, month d, day d)"

definition midnight :: "nat \<Rightarrow> nat \<Rightarrow> nat \<Rightarrow> datetime" where
  "midnight y m d = \<lparr>year = y, month = m, day = d, time_of_day = 0\<rparr>"

section \<open>The snapshot client\<close>

text \<open>
  What one HTTP request can do: \<^verbatim>\<open>requests.get\<close> raises, \<^verbatim>\<open>raise_for_status\<close> raises,
  \<^verbatim>\<open>response.json()\<close> raises, or the body parses to a value.
\<close>

datatype http_response =
    NetworkFailure
  | HttpStatusError
  | InvalidBody
  | Body json

text \<open>
  The world outside the collector during one collection cycle: the exchange's reply to
  the instrument listing (for the request parameters currency, kind, expired), its reply
  to the order-book request made in loop iteration \<open>idx\<close> for a given instrument name,
  and the clock read in that iteration.
\<close>

record world =
  instruments_reply :: "string \<Rightarrow> string \<Rightarrow> string \<Rightarrow> http_response"
  order_book_reply :: "nat \<Rightarrow> json \<Rightarrow> http_response"
  clock :: "nat \<Rightarrow> datetime"

text \<open>The body of both \<^verbatim>\<open>try\<close> blocks: \<^verbatim>\<open>response.json()['result']\<close>.\<close>

fun json_result :: "http_response \<Rightarrow> error + json" where
  "json_result (Body j) = subscript j ''result''"
| "json_result _ = Inl RequestFailed"

definition get_instruments :: "world \<Rightarrow> string \<Rightarrow> string \<Rightarrow> bool \<Rightarrow> json" where
  "get_instruments w currency kind expired =
     (case json_result
             (instruments_reply w currency kind (if \<not> expired then ''false'' else ''true'')) of
        Inr r \<Rightarrow> r
      | Inl e \<Rightarrow> JArr [])"

definition get_orderbook :: "world \<Rightarrow> nat \<Rightarrow> json \<Rightarrow> json" where
  "get_orderbook w idx instrument_name =
     (case json_result (order_book_reply w idx instrument_name) of
        Inr r \<Rightarrow> r
      | Inl e \<Rightarrow> JNull)"

section \<open>Record assembly\<close>

record row =
  timestamp :: datetime
  instrument_name :: json
  expiration_timestamp :: json
  strike :: json
  option_type :: json
  mark_price :: json
  last_price :: json
  bid_price :: json
  ask_price :: json
  mid_price :: json
  delta :: json
  gamma :: json
  vega :: json
  theta :: json
  rho :: json
  mark_iv :: json
  bid_iv :: json
  ask_iv :: json
  open_interest :: json
  volume_24h :: json
  underlying_price :: json
  underlying_index :: json

text \<open>\<^verbatim>\<open>orderbook[k] if orderbook.get(k) else None\<close>, the expression of the bid and ask
  prices.\<close>

definition side_price :: "json \<Rightarrow> string \<Rightarrow> error + json" where
  "side_price orderbook k =
     bind_err (dict_get orderbook k JNull) (\<lambda>c.
       if truthy c then subscript orderbook k else Inr JNull)"

text \<open>
  \<^verbatim>\<open>(orderbook.get('best_bid_price', 0) + orderbook.get('best_ask_price', 0)) / 2
  if orderbook.get('best_bid_price') and orderbook.get('best_ask_price') else None\<close>
\<close>

definition mid_price_of :: "json \<Rightarrow> error + json" where
  "mid_price_of orderbook =
     bind_err (dict_get orderbook ''best_bid_price'' JNull) (\<lambda>c1.
       if truthy c1 then
         bind_err (dict_get orderbook ''best_ask_price'' JNull) (\<lambda>c2.
           if truthy c2 then
             bind_err (dict_get orderbook ''best_bid_price'' (JInt 0)) (\<lambda>b.
             bind_err (dict_get orderbook ''best_ask_price'' (JInt 0)) (\<lambda>a.
             bind_err (py_add b a) py_half))
           else Inr JNull)
       else Inr JNull)"

text \<open>\<^verbatim>\<open>orderbook.get(group, {}).get(k)\<close>, the expression of the Greeks and of the
  24h volume.\<close>

definition nested_get :: "json \<Rightarrow> string \<Rightarrow> string \<Rightarrow> error + json" where
  "nested_get orderbook g k =
     bind_err (dict_get orderbook g (JObj [])) (\<lambda>inner. dict_get inner k JNull)"

text \<open>The dictionary display of \<^verbatim>\<open>collect_options_data\<close>, its entries evaluated in the
  order of the source.\<close>

definition make_record :: "datetime \<Rightarrow> json \<Rightarrow> json \<Rightarrow> json \<Rightarrow> error + row" where
  "make_record now name instrument orderbook =
     bind_err (subscript instrument ''expiration_timestamp'') (\<lambda>v_exp.
     bind_err (subscript instrument ''strike'') (\<lambda>v_strike.
     bind_err (subscript instrument ''option_type'') (\<lambda>v_type.
     bind_err (dict_get orderbook ''mark_price'' JNull) (\<lambda>v_mark.
     bind_err (dict_get orderbook ''last_price'' JNull) (\<lambda>v_last.
     bind_err (side_price orderbook ''best_bid_price'') (\<lambda>v_bid.
     bind_err (side_price orderbook ''best_ask_price'') (\<lambda>v_ask.
     bind_err (mid_price_of orderbook) (\<lambda>v_mid.
     bind_err (nested_get orderbook ''greeks'' ''delta'') (\<lambda>v_delta.
     bind_err (nested_get orderbook ''greeks'' ''gamma'') (\<lambda>v_gamma.
     bind_err (nested_get orderbook ''greeks'' ''vega'') (\<lambda>v_vega.
     bind_err (nested_get orderbook ''greeks'' ''theta'') (\<lambda>v_theta.
     bind_err (nested_get orderbook ''greeks'' ''rho'') (\<lambda>v_rho.
     bind_err (dict_get orderbook ''mark_iv'' JNull) (\<lambda>v_mark_iv.
     bind_err (dict_get orderbook ''bid_iv'' JNull) (\<lambda>v_bid_iv.
     bind_err (dict_get orderbook ''ask_iv'' JNull) (\<lambda>v_ask_iv.
     bind_err (dict_get orderbook ''open_interest'' JNull) (\<lambda>v_oi.
     bind_err (nested_get orderbook ''stats'' ''volume'') (\<lambda>v_volume.
     bind_err (dict_get orderbook ''underlying_price'' JNull) (\<lambda>v_und.
     bind_err (dict_get orderbook ''underlying_index'' JNull) (\<lambda>v_index.
       Inr \<lparr>timestamp = now,
            instrument_name = name,
            expiration_timestamp = v_exp,
            strike = v_strike,
            option_type = v_type,
            mark_price = v_mark,
            last_price = v_last,
            bid_price = v_bid,
            ask_price = v_ask,
            mid_price = v_mid,
            delta = v_delta,
            gamma = v_gamma,
            vega = v_vega,
            theta = v_theta,
            rho = v_rho,
            mark_iv = v_mark_iv,
            bid_iv = v_bid_iv,
            ask_iv = v_ask_iv,
            open_interest = v_oi,
            volume_24h = v_volume,
            underlying_price = v_und,
            underlying_index = v_index\<rparr>))))))))))))))))))))"

section \<open>The collection cycle\<close>

text \<open>
  \<^verbatim>\<open>len(instruments)\<close> and \<^verbatim>\<open>enumerate(instruments)\<close> accept a list, a dictionary (its
  keys) and a string (its characters), and raise \<^verbatim>\<open>TypeError\<close> on anything else.
\<close>

fun py_iter :: "json \<Rightarrow> error + json list" where
  "py_iter (JArr xs) = Inr xs"
| "py_iter (JObj kvs) = Inr (map (\<lambda>kv. JStr (fst kv)) kvs)"
| "py_iter (JStr s) = Inr (map (\<lambda>c. JStr [c]) s)"
| "py_iter _ = Inl TypeError"

text \<open>
  One iteration of the loop of \<^verbatim>\<open>collect_options_data\<close>: the record to append, if any.
  The pause after every tenth instrument changes no value and is left out.
\<close>

definition collect_step :: "world \<Rightarrow> nat \<Rightarrow> json \<Rightarrow> error + row option" where
  "collect_step w idx instrument =
     bind_err (subscript instrument ''instrument_name'') (\<lambda>name.
       let orderbook = get_orderbook w idx name in
       if truthy orderbook then
         bind_err (make_record (clock w idx) name instrument orderbook) (\<lambda>r. Inr (Some r))
       else Inr None)"

fun collect_loop :: "world \<Rightarrow> nat \<Rightarrow> json list \<Rightarrow> row list \<Rightarrow> error + row list" where
  "collect_loop w idx [] data = Inr data"
| "collect_loop w idx (instrument # rest) data =
     bind_err (collect_step w idx instrument) (\<lambda>r.
       collect_loop w (Suc idx) rest (case r of None \<Rightarrow> data | Some x \<Rightarrow> data @ [x]))"

text \<open>A data frame is the list of its rows.\<close>

definition collect_options_data :: "world \<Rightarrow> string \<Rightarrow> error + row list" where
  "collect_options_data w currency =
     bind_err (py_iter (get_instruments w currency ''option'' False)) (\<lambda>instruments.
       collect_loop w 0 instruments [])"

section \<open>Partition file names\<close>

definition digit_char :: "nat \<Rightarrow> char" where
  "digit_char d = char_of (48 + d)"

text \<open>The \<open>w\<close> low-order decimal digits of \<open>n\<close>, most significant first.\<close>

fun digits :: "nat \<Rightarrow> nat \<Rightarrow> string" where
  "digits 0 n = []"
| "digits (Suc w) n = digit_char (n div 10 ^ w mod 10) # digits w n"

text \<open>The decimal digits of \<open>n\<close>, without padding.\<close>

fun decimal :: "nat \<Rightarrow> string" where
  "decimal n =
     (if n < 10 then [digit_char n] else decimal (n div 10) @ [digit_char (n mod 10)])"

declare decimal.simps [simp del]

text \<open>
  \<^verbatim>\<open>date.strftime('%Y%m%d')\<close>: month and day are padded to two digits. The year is
  written by the C library: with its four digits from the year 1000 on, and without
  padding before that, as CPython on Linux does (the year 999 gives \<^verbatim>\<open>9990101\<close>).
\<close>

definition strftime_Ymd :: "datetime \<Rightarrow> string" where
  "strftime_Ymd d =
     (if year d < 1000 then decimal (year d) else digits 4 (year d))
       @ digits 2 (month d) @ digits 2 (day d)"

text \<open>
  The name of the partition file inside the data directory; the directory itself is the
  same for every file and is left out. \<open>now\<close> is the clock, read when no date is given.
\<close>

definition get_daily_filename :: "string \<Rightarrow> datetime \<Rightarrow> datetime option \<Rightarrow> string" where
  "get_daily_filename currency now date =
     (let d = (case date of None \<Rightarrow> now | Some x \<Rightarrow> x);
          date_str = strftime_Ymd d
      in currency @ ''_options_'' @ date_str @ ''.parquet'')"

section \<open>The partition store\<close>

text \<open>
  The data directory maps file names to files. A file either holds a data frame or cannot
  be read as one.
\<close>

datatype stored_file = Parquet "row list" | Unreadable

type_synonym store = "(string \<times> stored_file) list"

definition file_exists :: "store \<Rightarrow> string \<Rightarrow> bool" where
  "file_exists fs name = (map_of fs name \<noteq> None)"

definition read_parquet :: "store \<Rightarrow> string \<Rightarrow> error + row list" where
  "read_parquet fs name =
     (case map_of fs name of Some (Parquet rows) \<Rightarrow> Inr rows | _ \<Rightarrow> Inl ReadFailed)"

text \<open>
  \<^verbatim>\<open>to_parquet\<close> either writes the whole frame or raises; when it raises, the
  environment decides what is left under that name (nothing, or some file).
\<close>

datatype write_fault = NoFault | Fault "stored_file option"

definition to_parquet :: "write_fault \<Rightarrow> store \<Rightarrow> string \<Rightarrow> row list \<Rightarrow> (error + unit) \<times> store" where
  "to_parquet fault fs name df =
     (case fault of
        NoFault \<Rightarrow> (Inr (), AList.update name (Parquet df) fs)
      | Fault None \<Rightarrow> (Inl WriteFailed, AList.delete name fs)
      | Fault (Some f) \<Rightarrow> (Inl WriteFailed, AList.update name f fs))"

text \<open>What \<^verbatim>\<open>save_to_parquet\<close> prints.\<close>

datatype message =
    NoDataToSave
  | AppendedTo string
  | CreatedNew string
  | TotalRecords nat

record save_outcome =
  returned :: "error + string option"
  store_after :: store
  printed :: "message list"

text \<open>The last three statements of \<^verbatim>\<open>save_to_parquet\<close>: write, report, return.\<close>

definition write_and_report ::
  "write_fault \<Rightarrow> store \<Rightarrow> string \<Rightarrow> row list \<Rightarrow> message list \<Rightarrow> save_outcome" where
  "write_and_report fault fs filename df out =
     (case to_parquet fault fs filename df of
        (Inr u, fs') \<Rightarrow>
          \<lparr>returned = Inr (Some filename), store_after = fs',
           printed = out @ [TotalRecords (length df)]\<rparr>
      | (Inl e, fs') \<Rightarrow> \<lparr>returned = Inl e, store_after = fs', printed = out\<rparr>)"

definition save_to_parquet ::
  "string \<Rightarrow> datetime \<Rightarrow> write_fault \<Rightarrow> store \<Rightarrow> row list \<Rightarrow> save_outcome" where
  "save_to_parquet currency now fault fs df =
     (if df = [] then \<lparr>returned = Inr None, store_after = fs, printed = [NoDataToSave]\<rparr>
      else
        let filename = get_daily_filename currency now None in
        if file_exists fs filename then
          (case read_parquet fs filename of
             Inl e \<Rightarrow> \<lparr>returned = Inl e, store_after = fs, printed = []\<rparr>
           | Inr existing_df \<Rightarrow>
               write_and_report fault fs filename (existing_df @ df) [AppendedTo filename])
        else write_and_report fault fs filename df [CreatedNew filename])"

section \<open>Loading partitions\<close>

text \<open>\<^verbatim>\<open>s.split(c)[-1]\<close>: what follows the last \<open>c\<close>, or all of \<open>s\<close>.\<close>

definition after_last :: "char \<Rightarrow> string \<Rightarrow> string" where
  "after_last c s = rev (takeWhile (\<lambda>x. x \<noteq> c) (rev s))"

text \<open>\<^verbatim>\<open>Path.stem\<close>: the name up to its last dot, when that dot is neither the first
  nor the last character.\<close>

definition stem :: "string \<Rightarrow> string" where
  "stem name =
     (let ext = after_last CHR ''.'' name;
          i = length name - length ext - 1
      in if CHR ''.'' \<in> set name \<and> 0 < i \<and> ext \<noteq> [] then take i name else name)"

definition is_digit :: "char \<Rightarrow> bool" where
  "is_digit c = (CHR ''0'' \<le> c \<and> c \<le> CHR ''9'')"

definition digit_val :: "char \<Rightarrow> nat" where
  "digit_val c = of_char c - 48"

text \<open>
  \<^verbatim>\<open>datetime.strptime(s, '%Y%m%d')\<close> matches the regular expression
  \<^verbatim>\<open>(\d\d\d\d)(1[0-2]|0[1-9]|[1-9])(3[0-1]|[1-2]\d|0[1-9]|[1-9]| [1-9])\<close> at the start
  of \<open>s\<close>, trying the alternatives from left to right, and raises \<^verbatim>\<open>ValueError\<close> when
  nothing matches, when text is left over after the first match, or when the three
  numbers are not a date. \<open>match_month\<close> and \<open>match_day\<close> list the ways to match one
  group, in the order in which the matcher tries them, each with the text that follows.
  Only ASCII digits are taken as digits.
\<close>

definition match_month :: "string \<Rightarrow> (nat \<times> string) list" where
  "match_month s =
     (case s of
        a # b # r \<Rightarrow>
          (if a = CHR ''1'' \<and> CHR ''0'' \<le> b \<and> b \<le> CHR ''2'' then [(10 + digit_val b, r)] else []) @
          (if a = CHR ''0'' \<and> CHR ''1'' \<le> b \<and> b \<le> CHR ''9'' then [(digit_val b, r)] else [])
      | _ \<Rightarrow> []) @
     (case s of
        a # r \<Rightarrow> (if CHR ''1'' \<le> a \<and> a \<le> CHR ''9'' then [(digit_val a, r)] else [])
      | [] \<Rightarrow> [])"

definition match_day :: "string \<Rightarrow> (nat \<times> string) list" where
  "match_day s =
     (case s of
        a # b # r \<Rightarrow>
          (if a = CHR ''3'' \<and> CHR ''0'' \<le> b \<and> b \<le> CHR ''1'' then [(30 + digit_val b, r)] else []) @
          (if CHR ''1'' \<le> a \<and> a \<le> CHR ''2'' \<and> is_digit b
           then [(10 * digit_val a + digit_val b, r)] else []) @
          (if a = CHR ''0'' \<and> CHR ''1'' \<le> b \<and> b \<le> CHR ''9'' then [(digit_val b, r)] else [])
      | _ \<Rightarrow> []) @
     (case s of
        a # r \<Rightarrow> (if CHR ''1'' \<le> a \<and> a \<le> CHR ''9'' then [(digit_val a, r)] else [])
      | [] \<Rightarrow> []) @
     (case s of
        a # b # r \<Rightarrow>
          (if a = CHR '' '' \<and> CHR ''1'' \<le> b \<and> b \<le> CHR ''9'' then [(digit_val b, r)] else [])
      | _ \<Rightarrow> [])"

definition strptime_Ymd :: "string \<Rightarrow> error + datetime" where
  "strptime_Ymd s =
     (case s of
        y1 # y2 # y3 # y4 # r \<Rightarrow>
          if is_digit y1 \<and> is_digit y2 \<and> is_digit y3 \<and> is_digit y4 then
            (case concat (map (\<lambda>(m, r1). map (\<lambda>(d, r2). (m, d, r2)) (match_day r1))
                           (match_month r)) of
               [] \<Rightarrow> Inl ValueError
             | (m, d, r2) # _ \<Rightarrow>
                 let y = 1000 * digit_val y1 + 100 * digit_val y2 + 10 * digit_val y3
                          + digit_val y4
                 in if r2 \<noteq> [] then Inl ValueError
                    else if valid_date y m d then Inr (midnight y m d)
                    else Inl ValueError)
          else Inl ValueError
      | _ \<Rightarrow> Inl ValueError)"

text \<open>
  The pattern \<^verbatim>\<open>{currency}_options_*.parquet\<close> over the names in the data directory
  (for a currency symbol without pattern characters).
\<close>

definition glob_match :: "string \<Rightarrow> string \<Rightarrow> bool" where
  "glob_match currency name =
     (let p = currency @ ''_options_''; q = ''.parquet'' in
      length p + length q \<le> length name \<and> take (length p) name = p
      \<and> drop (length name - length q) name = q)"

text \<open>The date filter inside the loop of \<^verbatim>\<open>load_data\<close>: whether the file is read.\<close>

definition keep_file :: "datetime option \<Rightarrow> datetime option \<Rightarrow> string \<Rightarrow> error + bool" where
  "keep_file start_date end_date name =
     (if start_date \<noteq> None \<or> end_date \<noteq> None then
        bind_err (strptime_Ymd (after_last CHR ''_'' (stem name))) (\<lambda>file_date.
          if (case start_date of Some s \<Rightarrow> dt_less file_date s | None \<Rightarrow> False) then Inr False
          else if (case end_date of Some e \<Rightarrow> dt_less e file_date | None \<Rightarrow> False)
          then Inr False
          else Inr True)
      else Inr True)"

fun load_loop ::
  "store \<Rightarrow> datetime option \<Rightarrow> datetime option \<Rightarrow> string list \<Rightarrow> row list list
    \<Rightarrow> error + row list list" where
  "load_loop fs start_date end_date [] dfs = Inr dfs"
| "load_loop fs start_date end_date (name # names) dfs =
     bind_err (keep_file start_date end_date name) (\<lambda>keep.
       if keep then
         bind_err (read_parquet fs name) (\<lambda>df.
           load_loop fs start_date end_date names (dfs @ [df]))
       else load_loop fs start_date end_date names dfs)"

definition load_data ::
  "string \<Rightarrow> store \<Rightarrow> datetime option \<Rightarrow> datetime option \<Rightarrow> error + row list" where
  "load_data currency fs start_date end_date =
     (let files = sort (filter (glob_match currency) (map fst fs)) in
      if files = [] then Inr []
      else
        bind_err (load_loop fs start_date end_date files []) (\<lambda>dfs.
          if dfs \<noteq> [] then Inr (concat dfs) else Inr []))"

section \<open>Well-formed replies\<close>

text \<open>
  The shape of the exchange's replies that the theorems below assume. An instrument is a
  dictionary with its four fields. In an order book, \<^verbatim>\<open>greeks\<close> and \<^verbatim>\<open>stats\<close> are
  dictionaries when present, and the best bid and best ask, when present, are null, a
  float, or an integer of a magnitude that a float can hold.
\<close>

definition well_formed_instrument :: "json \<Rightarrow> bool" where
  "well_formed_instrument instrument =
     (case instrument of
        JObj kvs \<Rightarrow>
          map_of kvs ''instrument_name'' \<noteq> None \<and> map_of kvs ''expiration_timestamp'' \<noteq> None
          \<and> map_of kvs ''strike'' \<noteq> None \<and> map_of kvs ''option_type'' \<noteq> None
      | _ \<Rightarrow> False)"

definition group_ok :: "(string \<times> json) list \<Rightarrow> string \<Rightarrow> bool" where
  "group_ok kvs g = (case map_of kvs g of None \<Rightarrow> True | Some (JObj inner) \<Rightarrow> True | Some _ \<Rightarrow> False)"

definition price_ok :: "json \<Rightarrow> bool" where
  "price_ok v = (case v of JFloat d \<Rightarrow> True | JInt i \<Rightarrow> \<bar>i\<bar> \<le> 2 ^ 1023 | _ \<Rightarrow> False)"

definition side_ok :: "(string \<times> json) list \<Rightarrow> string \<Rightarrow> bool" where
  "side_ok kvs k =
     (case map_of kvs k of None \<Rightarrow> True | Some JNull \<Rightarrow> True | Some v \<Rightarrow> price_ok v)"

definition well_formed_snapshot :: "(string \<times> json) list \<Rightarrow> bool" where
  "well_formed_snapshot kvs =
     (group_ok kvs ''greeks'' \<and> group_ok kvs ''stats''
      \<and> side_ok kvs ''best_bid_price'' \<and> side_ok kvs ''best_ask_price'')"

text \<open>The value of \<open>k\<close> inside the group \<open>g\<close> of an order book, null when the group or
  the key is absent.\<close>

definition nested_default :: "(string \<times> json) list \<Rightarrow> string \<Rightarrow> string \<Rightarrow> json" where
  "nested_default kvs g k =
     (case map_of kvs g of Some (JObj inner) \<Rightarrow> get_default inner k JNull | _ \<Rightarrow> JNull)"

text \<open>The name under which an instrument is fetched, and whether the fetch made for it
  in iteration \<open>i\<close> came back with data.\<close>

definition name_of :: "json \<Rightarrow> json" where
  "name_of instrument =
     (case subscript instrument ''instrument_name'' of Inr n \<Rightarrow> n | Inl e \<Rightarrow> JNull)"

definition has_data :: "world \<Rightarrow> nat \<times> json \<Rightarrow> bool" where
  "has_data w p = truthy (get_orderbook w (fst p) (name_of (snd p)))"

definition record_for :: "world \<Rightarrow> nat \<times> json \<Rightarrow> row option" where
  "record_for w p =
     (case collect_step w (fst p) (snd p) of Inr (Some r) \<Rightarrow> Some r | _ \<Rightarrow> None)"

text \<open>One iteration meets well-formed replies: the instrument carries a name, and its
  fetch either brings no data or a well-formed order book for a well-formed instrument.\<close>

definition step_ok :: "world \<Rightarrow> nat \<Rightarrow> json \<Rightarrow> bool" where
  "step_ok w idx instrument =
     (case subscript instrument ''instrument_name'' of
        Inl e \<Rightarrow> False
      | Inr name \<Rightarrow>
          (case get_orderbook w idx name of
             JObj kvs \<Rightarrow> kvs = [] \<or> (well_formed_instrument instrument \<and> well_formed_snapshot kvs)
           | ob \<Rightarrow> \<not> truthy ob))"

definition cycle_ok :: "world \<Rightarrow> json list \<Rightarrow> bool" where
  "cycle_ok w instruments =
     list_all (\<lambda>p. step_ok w (fst p) (snd p)) (List.enumerate 0 instruments)"

text \<open>The mid price of a well-formed order book: what \<^verbatim>\<open>(bid + ask) / 2\<close> evaluates
  to when both sides are present with a true truth value, and null otherwise.\<close>

definition mid_value :: "(string \<times> json) list \<Rightarrow> json" where
  "mid_value kvs =
     (case (map_of kvs ''best_bid_price'', map_of kvs ''best_ask_price'') of
        (Some b, Some a) \<Rightarrow>
          if truthy b \<and> truthy a then
            (case bind_err (py_add b a) py_half of Inr v \<Rightarrow> v | Inl e \<Rightarrow> JNull)
          else JNull
      | _ \<Rightarrow> JNull)"

definition is_finite :: "double \<Rightarrow> bool" where
  "is_finite d = (case d of Fin x \<Rightarrow> True | NegZero \<Rightarrow> True | _ \<Rightarrow> False)"

text \<open>The floats nearest to 0.1 and to 0.2.\<close>

definition tenth :: double where
  "tenth = Fin (3602879701896397 / 2 ^ 55)"

definition fifth :: double where
  "fifth = Fin (3602879701896397 / 2 ^ 54)"

text \<open>\<^verbatim>\<open>x if x else None\<close>: a value whose truth value is false is replaced by null.\<close>

definition nonzero_or_null :: "json \<Rightarrow> json" where
  "nonzero_or_null v = (if truthy v then v else JNull)"

section \<open>Example values\<close>

definition example_instrument :: json where
  "example_instrument =
     JObj [(''instrument_name'', JStr ''BTC-27DEC24-100000-C''),
           (''expiration_timestamp'', JInt 1735286400000),
           (''strike'', JInt 100000),
           (''option_type'', JStr ''call'')]"

definition example_time :: datetime where
  "example_time = \<lparr>year = 2024, month = 3, day = 1, time_of_day = 43200000000\<rparr>"

definition example_world :: "http_response \<Rightarrow> (nat \<Rightarrow> http_response) \<Rightarrow> world" where
  "example_world listing books =
     \<lparr>instruments_reply = (\<lambda>currency kind expired. listing),
      order_book_reply = (\<lambda>idx name. books idx),
      clock = (\<lambda>idx. example_time)\<rparr>"

definition example_row :: "rat \<Rightarrow> row" where
  "example_row p =
     \<lparr>timestamp = example_time,
      instrument_name = JStr ''BTC-27DEC24-100000-C'',
      expiration_timestamp = JInt 1735286400000,
      strike = JInt 100000,
      option_type = JStr ''call'',
      mark_price = JFloat (Fin p),
      last_price = JNull,
      bid_price = JNull,
      ask_price = JNull,
      mid_price = JNull,
      delta = JNull,
      gamma = JNull,
      vega = JNull,
      theta = JNull,
      rho = JNull,
      mark_iv = JNull,
      bid_iv = JNull,
      ask_iv = JNull,
      open_interest = JNull,
      volume_24h = JNull,
      underlying_price = JNull,
      underlying_index = JNull\<rparr>"

definition example_put :: json where
  "example_put =
     JObj [(''instrument_name'', JStr ''BTC-27DEC24-90000-P''),
           (''expiration_timestamp'', JInt 1735286400000),
           (''strike'', JInt 90000),
           (''option_type'', JStr ''put'')]"

text \<open>The first order-book request fails, the second one brings a snapshot.\<close>

definition example_books :: "nat \<Rightarrow> http_response" where
  "example_books idx =
     (if idx = 1 then Body (JObj [(''result'', JObj [(''mark_price'', JFloat (Fin 5))])])
      else NetworkFailure)"

text \<open>Every order-book request but the second one brings a snapshot.\<close>

definition example_books_gap :: "nat \<Rightarrow> http_response" where
  "example_books_gap idx =
     (if idx = 1 then NetworkFailure
      else Body (JObj [(''result'', JObj [(''mark_price'', JFloat (Fin 5))])]))"

section \<open>Stores of partitions\<close>

text \<open>
  A data directory that holds one readable partition file per entry of \<open>parts\<close>, each
  named by \<^verbatim>\<open>get_daily_filename\<close> for the moment it was written. The order of \<open>parts\<close>
  is the order in which the files were created.
\<close>

definition partition_store :: "string \<Rightarrow> (datetime \<times> row list) list \<Rightarrow> store" where
  "partition_store currency parts =
     map (\<lambda>p. (get_daily_filename currency (fst p) None, Parquet (snd p))) parts"

text \<open>
  Whether midnight of the day \<open>d\<close> is neither before the start nor after the end of the
  period; a bound that is not given does not restrict.
\<close>

definition in_range :: "datetime option \<Rightarrow> datetime option \<Rightarrow> datetime \<Rightarrow> bool" where
  "in_range start_date end_date d =
     ((case start_date of
         None \<Rightarrow> True
       | Some s \<Rightarrow> \<not> dt_less (midnight (year d) (month d) (day d)) s)
      \<and> (case end_date of
            None \<Rightarrow> True
          | Some e \<Rightarrow> \<not> dt_less e (midnight (year d) (month d) (day d))))"

text \<open>A bound of a period that is given as a calendar date: no bound, or a
  \<^verbatim>\<open>datetime\<close> at midnight.\<close>

definition date_bound :: "datetime option \<Rightarrow> bool" where
  "date_bound b = (case b of None \<Rightarrow> True | Some t \<Rightarrow> time_of_day t = 0)"

text \<open>
  Whether the day \<open>d\<close> lies in the range of calendar days from the start date to the end
  date, both included; a bound that is not given does not restrict.
\<close>

definition within_dates :: "datetime option \<Rightarrow> datetime option \<Rightarrow> datetime \<Rightarrow> bool" where
  "within_dates start_date end_date d =
     ((case start_date of None \<Rightarrow> True | Some s \<Rightarrow> date_key s \<le> date_key d)
      \<and> (case end_date of None \<Rightarrow> True | Some e \<Rightarrow> date_key d \<le> date_key e))"

definition example_earlier :: datetime where
  "example_earlier = \<lparr>year = 2024, month = 1, day = 15, time_of_day = 0\<rparr>"

text \<open>Two partition files; the one for 1 March 2024 was created before the one for
  15 January 2024.\<close>

definition example_store :: store where
  "example_store =
     [(''BTC_options_20240301.parquet'', Parquet [example_row 1]),
      (''BTC_options_20240115.parquet'', Parquet [example_row 2])]"

section \<open>Rounding stays finite on bounded values\<close>

lemma floor_rat_numeral:
  "\<lfloor>(numeral a / numeral b :: rat)\<rfloor> = numeral a div numeral b"
  using floor_divide_of_int_eq[of "numeral a" "numeral b", where ?'a = rat] by simp

lemma ceiling_rat_numeral:
  "\<lceil>(numeral a / numeral b :: rat)\<rceil> = - (- numeral a div numeral b)"
  using ceiling_divide_eq_div[of "numeral a" "numeral b", where ?'a = rat] by simp

lemma bit_length_eval:
  "bit_length 0 = 0" "bit_length 1 = 1" "bit_length (Suc 0) = 1"
  "bit_length (numeral k) = Suc (bit_length (numeral k div 2))"
  by (simp_all add: bit_length.simps[of 0] bit_length.simps[of 1] bit_length.simps[of "Suc 0"]
      bit_length.simps[of "numeral k"])

lemmas eval_round = round_double_def floor_log2_def pow2_def round_half_even_def Let_def
  floor_rat_numeral ceiling_rat_numeral bit_length_eval

lemma pow2_powi: "pow2 k = 2 powi k"
  by (simp add: pow2_def power_int_def inverse_eq_divide power_one_over)

lemma pow2_pos: "0 < pow2 k"
  by (simp add: pow2_powi)

lemma pow2_mono: "k \<le> l \<Longrightarrow> pow2 k \<le> pow2 l"
  by (simp add: pow2_powi power_int_increasing)

lemma bit_length_lower: "0 < n \<Longrightarrow> 2 ^ (bit_length n - 1) \<le> n"
proof (induction n rule: bit_length.induct)
  case (1 n)
  show ?case
  proof (cases "n div 2 = 0")
    case True
    with "1.prems" show ?thesis
      by (simp add: bit_length.simps[of n] bit_length.simps[of 0])
  next
    case False
    then have p: "0 < n div 2" by simp
    with "1.prems" have ih: "2 ^ (bit_length (n div 2) - 1) \<le> n div 2"
      using "1.IH" by simp
    from p have b: "0 < bit_length (n div 2)"
      by (simp add: bit_length.simps[of "n div 2"])
    have "2 ^ (bit_length n - 1) = (2::nat) * 2 ^ (bit_length (n div 2) - 1)"
      using "1.prems" b by (simp add: bit_length.simps[of n] flip: power_Suc)
    also have "\<dots> \<le> 2 * (n div 2)" using ih by simp
    also have "\<dots> \<le> n" by simp
    finally show ?thesis .
  qed
qed

lemma floor_log2_upper:
  assumes "0 < a" and "a \<le> 2 ^ N"
  shows "floor_log2 a \<le> int N"
proof (cases "1 \<le> a")
  case False
  then show ?thesis by (simp add: floor_log2_def)
next
  case True
  let ?k = "nat \<lfloor>a\<rfloor>"
  from True have k: "0 < ?k" by simp
  have "of_nat ?k \<le> a" using True by (simp add: of_nat_nat)
  from this assms(2) have h: "(of_nat ?k :: rat) \<le> 2 ^ N" by (rule order_trans)
  have "(2::rat) ^ N = of_nat (2 ^ N)" by simp
  with h have "(of_nat ?k :: rat) \<le> of_nat (2 ^ N)" by (simp only:)
  then have "?k \<le> 2 ^ N" by (simp only: of_nat_le_iff)
  with bit_length_lower[OF k] have "(2::nat) ^ (bit_length ?k - 1) \<le> 2 ^ N"
    by (rule order_trans)
  then have "bit_length ?k - 1 \<le> N" by (simp add: power_le_imp_le_exp)
  with True show ?thesis by (simp add: floor_log2_def)
qed

lemma round_half_even_upper: "of_int (round_half_even y) \<le> y + (1::rat)"
proof -
  have "of_int \<lfloor>y\<rfloor> \<le> y" by simp
  moreover have "of_int (round_half_even y) \<le> (of_int \<lfloor>y\<rfloor> :: rat) + 1"
    by (simp add: round_half_even_def Let_def)
  ultimately show ?thesis by linarith
qed

lemma round_double_finite:
  assumes "\<bar>x\<bar> \<le> pow2 1023"
  shows "is_finite (round_double x)"
proof (cases "x = 0")
  case True
  then show ?thesis by (simp add: round_double_def is_finite_def)
next
  case False
  define a where "a = \<bar>x\<bar>"
  define e where "e = max (floor_log2 a) (- 1022)"
  define q where "q = pow2 (e - 52)"
  define n where "n = round_half_even (a / q)"
  define m where "m = of_int n * q"
  from False have a: "0 < a" by (simp add: a_def)
  have "pow2 1023 = 2 ^ 1023" by (simp add: pow2_def)
  with assms have "a \<le> 2 ^ 1023" by (simp only: a_def)
  from floor_log2_upper[OF a this] have "e \<le> 1023" by (simp add: e_def)
  then have q: "q \<le> pow2 971" unfolding q_def by (intro pow2_mono) simp
  have qp: "0 < q" by (simp add: q_def pow2_pos)
  have "m \<le> (a / q + 1) * q"
    unfolding m_def n_def using qp round_half_even_upper[of "a / q"]
    by (simp add: mult_right_mono)
  also have "\<dots> = a + q" using qp by (simp add: algebra_simps)
  also have "\<dots> \<le> pow2 1023 + pow2 971" using assms q by (simp add: a_def)
  also have "\<dots> < pow2 1024"
  proof -
    have "pow2 971 < pow2 1023"
      by (simp add: pow2_powi power_int_strict_increasing)
    moreover have "pow2 1024 = 2 * pow2 1023"
      by (simp add: pow2_def)
    ultimately show ?thesis by simp
  qed
  finally have "\<not> pow2 1024 \<le> m" by simp
  then show ?thesis
    using False
    by (simp add: round_double_def Let_def is_finite_def
        a_def[symmetric] e_def[symmetric] q_def[symmetric] n_def[symmetric] m_def[symmetric])
qed

lemma float_of_int_bounded:
  assumes "\<bar>i\<bar> \<le> 2 ^ 1023"
  shows "float_of_int i = Inr (round_double (of_int i))"
proof -
  have "pow2 1023 = of_int (2 ^ 1023)" by (simp add: pow2_def)
  moreover have "\<bar>of_int i :: rat\<bar> = of_int \<bar>i\<bar>" by simp
  ultimately have "\<bar>of_int i :: rat\<bar> \<le> pow2 1023"
    using assms by (simp only: of_int_le_iff)
  then have "is_finite (round_double (of_int i))" by (rule round_double_finite)
  then show ?thesis
    by (cases "round_double (of_int i)") (simp_all add: float_of_int_def is_finite_def)
qed

lemma half_of_int_bounded:
  assumes "\<bar>i\<bar> \<le> 2 ^ 1023" and "\<bar>j\<bar> \<le> 2 ^ 1023"
  shows "py_half (JInt (i + j)) = Inr (JFloat (round_double (of_int (i + j) / 2)))"
proof -
  have p: "pow2 1023 = of_int (2 ^ 1023)" by (simp add: pow2_def)
  from assms have "\<bar>i + j\<bar> \<le> 2 * 2 ^ 1023" by linarith
  then have "\<bar>of_int (i + j) :: rat\<bar> \<le> 2 * of_int (2 ^ 1023)"
    by (metis of_int_abs of_int_le_iff of_int_mult of_int_numeral)
  then have "\<bar>of_int (i + j) / 2 :: rat\<bar> \<le> pow2 1023"
    by (simp only: p abs_divide) simp
  then have "is_finite (round_double (of_int (i + j) / 2))" by (rule round_double_finite)
  then show ?thesis
    by (cases "round_double (of_int (i + j) / 2)") (simp_all add: py_half_def is_finite_def)
qed

lemma mid_arithmetic_total:
  assumes "price_ok b" and "price_ok a"
  shows "\<exists>v. bind_err (py_add b a) py_half = Inr v"
proof -
  have f: "\<exists>v. py_half (JFloat d) = Inr v" for d by (simp add: py_half_def)
  from assms consider
      x y where "b = JFloat x" "a = JFloat y"
    | i y where "b = JInt i" "\<bar>i\<bar> \<le> 2 ^ 1023" "a = JFloat y"
    | x j where "b = JFloat x" "a = JInt j" "\<bar>j\<bar> \<le> 2 ^ 1023"
    | i j where "b = JInt i" "\<bar>i\<bar> \<le> 2 ^ 1023" "a = JInt j" "\<bar>j\<bar> \<le> 2 ^ 1023"
    by (auto simp: price_ok_def split: json.splits)
  then show ?thesis
  proof cases
    case 1
    then show ?thesis using f by (simp add: bind_err_def)
  next
    case 2
    then show ?thesis using f by (simp add: bind_err_def float_of_int_bounded)
  next
    case 3
    then show ?thesis using f by (simp add: bind_err_def float_of_int_bounded)
  next
    case 4
    then show ?thesis by (simp add: bind_err_def half_of_int_bounded)
  qed
qed

section \<open>Record assembly on well-formed replies\<close>


lemma bind_err_simps [simp]:
  "bind_err (Inl e) f = Inl e" "bind_err (Inr x) f = f x"
  by (simp_all add: bind_err_def)

lemma side_price_obj:
  "side_price (JObj kvs) k =
     Inr (if truthy (get_default kvs k JNull) then get_default kvs k JNull else JNull)"
  by (auto simp: side_price_def get_default_def split: option.splits)

lemma nested_get_obj:
  "group_ok kvs g \<Longrightarrow> nested_get (JObj kvs) g k = Inr (nested_default kvs g k)"
  by (auto simp: nested_get_def group_ok_def nested_default_def get_default_def
      split: option.splits json.splits)

lemma mid_price_of_obj:
  assumes "side_ok kvs ''best_bid_price''" and "side_ok kvs ''best_ask_price''"
  shows "mid_price_of (JObj kvs) = Inr (mid_value kvs)"
proof (cases "map_of kvs ''best_bid_price''")
  case None
  then show ?thesis by (simp add: mid_price_of_def get_default_def mid_value_def)
next
  case b: (Some b)
  show ?thesis
  proof (cases "map_of kvs ''best_ask_price''")
    case None
    then show ?thesis by (simp add: mid_price_of_def get_default_def mid_value_def b)
  next
    case a: (Some a)
    show ?thesis
    proof (cases "truthy b \<and> truthy a")
      case False
      then show ?thesis by (auto simp: mid_price_of_def get_default_def mid_value_def a b)
    next
      case True
      with assms a b have "price_ok b" "price_ok a"
        by (auto simp: side_ok_def split: json.splits)
      then obtain v where "bind_err (py_add b a) py_half = Inr v"
        using mid_arithmetic_total by blast
      with True show ?thesis
        by (simp add: mid_price_of_def get_default_def mid_value_def a b)
    qed
  qed
qed

lemma make_record_obj:
  assumes "well_formed_instrument (JObj ikvs)" "well_formed_snapshot kvs"
  shows "make_record now name (JObj ikvs) (JObj kvs) =
     Inr \<lparr>timestamp = now,
            instrument_name = name,
            expiration_timestamp = get_default ikvs ''expiration_timestamp'' JNull,
            strike = get_default ikvs ''strike'' JNull,
            option_type = get_default ikvs ''option_type'' JNull,
            mark_price = get_default kvs ''mark_price'' JNull,
            last_price = get_default kvs ''last_price'' JNull,
            bid_price = (if truthy (get_default kvs ''best_bid_price'' JNull) then get_default kvs ''best_bid_price'' JNull else JNull),
            ask_price = (if truthy (get_default kvs ''best_ask_price'' JNull) then get_default kvs ''best_ask_price'' JNull else JNull),
            mid_price = mid_value kvs,
            delta = nested_default kvs ''greeks'' ''delta'',
            gamma = nested_default kvs ''greeks'' ''gamma'',
            vega = nested_default kvs ''greeks'' ''vega'',
            theta = nested_default kvs ''greeks'' ''theta'',
            rho = nested_default kvs ''greeks'' ''rho'',
            mark_iv = get_default kvs ''mark_iv'' JNull,
            bid_iv = get_default kvs ''bid_iv'' JNull,
            ask_iv = get_default kvs ''ask_iv'' JNull,
            open_interest = get_default kvs ''open_interest'' JNull,
            volume_24h = nested_default kvs ''stats'' ''volume'',
            underlying_price = get_default kvs ''underlying_price'' JNull,
            underlying_index = get_default kvs ''underlying_index'' JNull\<rparr>"
proof -
  from assms(1) obtain e s t where
    i: "map_of ikvs ''expiration_timestamp'' = Some e" "map_of ikvs ''strike'' = Some s"
       "map_of ikvs ''option_type'' = Some t"
    by (auto simp: well_formed_instrument_def)
  from assms(2) have g: "group_ok kvs ''greeks''" "group_ok kvs ''stats''"
    and b: "side_ok kvs ''best_bid_price''" "side_ok kvs ''best_ask_price''"
    by (simp_all add: well_formed_snapshot_def)
  show ?thesis
    unfolding make_record_def
    by (simp only: subscript.simps dict_get.simps i option.simps bind_err_simps
        side_price_obj nested_get_obj[OF g(1)] nested_get_obj[OF g(2)]
        mid_price_of_obj[OF b] get_default_def)
qed

section \<open>The mid price\<close>

lemma round_double_examples:
  "round_double 6 = Fin 6" "round_double 3 = Fin 3"
  "round_double (3602879701896397 / 2 ^ 55 + 3602879701896397 / 2 ^ 54)
     = Fin (5404319552844596 / 2 ^ 54)"
  "round_double (5404319552844596 / 2 ^ 54 / 2) = Fin (5404319552844596 / 2 ^ 55)"
  by (simp_all add: eval_round)

text \<open>
  C1 (as the code has it). For a well-formed instrument and a well-formed order book the
  record is assembled, and when best bid and best ask are both present and both non-zero
  its mid price is what Python computes for \<^verbatim>\<open>(bid + ask) / 2\<close>: for two floats the sum
  rounded to the nearest float and then halved, for two integers the float nearest to
  half their exact sum, an integer being converted to a float when the other side is one.
  This is the exact arithmetic mean whenever the sum and its half need no rounding. The
  mid price is null when either side is absent, and also when either side is present as
  null or as zero: the test
  \<^verbatim>\<open>if orderbook.get('best_bid_price') and orderbook.get('best_ask_price')\<close> takes a zero
  price for a missing one.
\<close>

theorem mid_price_mean_of_nonzero_sides:
  assumes "well_formed_instrument instrument" and "well_formed_snapshot kvs"
  shows "\<exists>r. make_record now name instrument (JObj kvs) = Inr r
    \<and> (\<forall>x y. map_of kvs ''best_bid_price'' = Some (JFloat x)
          \<and> map_of kvs ''best_ask_price'' = Some (JFloat y)
          \<and> truthy (JFloat x) \<and> truthy (JFloat y)
          \<longrightarrow> mid_price r = JFloat (double_half (double_add x y)))
    \<and> (\<forall>b a. map_of kvs ''best_bid_price'' = Some (JFloat (Fin b))
          \<and> map_of kvs ''best_ask_price'' = Some (JFloat (Fin a)) \<and> b \<noteq> 0 \<and> a \<noteq> 0
          \<and> (b + a = 0
              \<or> round_double (b + a) = Fin (b + a)
                \<and> round_double ((b + a) / 2) = Fin ((b + a) / 2))
          \<longrightarrow> mid_price r = JFloat (Fin ((b + a) / 2)))
    \<and> (\<forall>i j. map_of kvs ''best_bid_price'' = Some (JInt i)
          \<and> map_of kvs ''best_ask_price'' = Some (JInt j) \<and> i \<noteq> 0 \<and> j \<noteq> 0
          \<longrightarrow> mid_price r = JFloat (round_double (of_int (i + j) / 2)))
    \<and> (\<forall>i y. map_of kvs ''best_bid_price'' = Some (JInt i)
          \<and> map_of kvs ''best_ask_price'' = Some (JFloat y) \<and> i \<noteq> 0 \<and> truthy (JFloat y)
          \<longrightarrow> mid_price r = JFloat (double_half (double_add (round_double (of_int i)) y)))
    \<and> (\<forall>x j. map_of kvs ''best_bid_price'' = Some (JFloat x)
          \<and> map_of kvs ''best_ask_price'' = Some (JInt j) \<and> truthy (JFloat x) \<and> j \<noteq> 0
          \<longrightarrow> mid_price r = JFloat (double_half (double_add x (round_double (of_int j)))))
    \<and> (map_of kvs ''best_bid_price'' = None \<or> map_of kvs ''best_ask_price'' = None
          \<longrightarrow> mid_price r = JNull)
    \<and> (map_of kvs ''best_bid_price''
            \<in> {Some JNull, Some (JInt 0), Some (JFloat (Fin 0)), Some (JFloat NegZero)}
          \<or> map_of kvs ''best_ask_price''
            \<in> {Some JNull, Some (JInt 0), Some (JFloat (Fin 0)), Some (JFloat NegZero)}
          \<longrightarrow> mid_price r = JNull)"
proof -
  from assms(1) obtain ikvs where i: "instrument = JObj ikvs"
    by (cases instrument) (simp_all add: well_formed_instrument_def)
  have s: "side_ok kvs ''best_bid_price''" "side_ok kvs ''best_ask_price''"
    using assms(2) by (simp_all add: well_formed_snapshot_def)
  have ff: "mid_value kvs = JFloat (double_half (double_add x y))"
    if "map_of kvs ''best_bid_price'' = Some (JFloat x)"
      "map_of kvs ''best_ask_price'' = Some (JFloat y)" "truthy (JFloat x)" "truthy (JFloat y)"
    for x y
    using that by (simp add: mid_value_def py_half_def)
  have exact: "mid_value kvs = JFloat (Fin ((b + a) / 2))"
    if "map_of kvs ''best_bid_price'' = Some (JFloat (Fin b))"
      "map_of kvs ''best_ask_price'' = Some (JFloat (Fin a))" "b \<noteq> 0" "a \<noteq> 0"
      "b + a = 0 \<or> round_double (b + a) = Fin (b + a)
          \<and> round_double ((b + a) / 2) = Fin ((b + a) / 2)"
    for b a
    using that by (auto simp: mid_value_def py_half_def)
  have ii: "mid_value kvs = JFloat (round_double (of_int (i + j) / 2))"
    if "map_of kvs ''best_bid_price'' = Some (JInt i)"
      "map_of kvs ''best_ask_price'' = Some (JInt j)" "i \<noteq> 0" "j \<noteq> 0"
    for i j
  proof -
    from s that have "\<bar>i\<bar> \<le> 2 ^ 1023" "\<bar>j\<bar> \<le> 2 ^ 1023"
      by (simp_all add: side_ok_def price_ok_def)
    then have "py_half (JInt (i + j)) = Inr (JFloat (round_double (of_int (i + j) / 2)))"
      by (rule half_of_int_bounded)
    with that show ?thesis by (simp add: mid_value_def)
  qed
  have if': "mid_value kvs = JFloat (double_half (double_add (round_double (of_int i)) y))"
    if "map_of kvs ''best_bid_price'' = Some (JInt i)"
      "map_of kvs ''best_ask_price'' = Some (JFloat y)" "i \<noteq> 0" "truthy (JFloat y)"
    for i y
  proof -
    from s that have "\<bar>i\<bar> \<le> 2 ^ 1023" by (simp add: side_ok_def price_ok_def)
    then have "float_of_int i = Inr (round_double (of_int i))" by (rule float_of_int_bounded)
    with that show ?thesis by (simp add: mid_value_def py_half_def)
  qed
  have fi: "mid_value kvs = JFloat (double_half (double_add x (round_double (of_int j))))"
    if "map_of kvs ''best_bid_price'' = Some (JFloat x)"
      "map_of kvs ''best_ask_price'' = Some (JInt j)" "truthy (JFloat x)" "j \<noteq> 0"
    for x j
  proof -
    from s that have "\<bar>j\<bar> \<le> 2 ^ 1023" by (simp add: side_ok_def price_ok_def)
    then have "float_of_int j = Inr (round_double (of_int j))" by (rule float_of_int_bounded)
    with that show ?thesis by (simp add: mid_value_def py_half_def)
  qed
  have absent: "mid_value kvs = JNull"
    if "map_of kvs ''best_bid_price'' = None \<or> map_of kvs ''best_ask_price'' = None"
    using that by (auto simp: mid_value_def split: option.splits)
  have zero: "mid_value kvs = JNull"
    if "map_of kvs ''best_bid_price''
          \<in> {Some JNull, Some (JInt 0), Some (JFloat (Fin 0)), Some (JFloat NegZero)}
        \<or> map_of kvs ''best_ask_price''
          \<in> {Some JNull, Some (JInt 0), Some (JFloat (Fin 0)), Some (JFloat NegZero)}"
    using that by (auto simp: mid_value_def split: option.splits)
  show ?thesis
    unfolding i make_record_obj[OF assms(1)[unfolded i] assms(2)]
    using ff exact ii if' fi absent zero by simp
qed

theorem mid_price_mean_of_nonzero_sides_witness:
  "\<exists>r. make_record example_time (JStr ''BTC-27DEC24-100000-C'') example_instrument
         (JObj [(''best_bid_price'', JFloat (Fin 2)), (''best_ask_price'', JFloat (Fin 4))])
         = Inr r
       \<and> mid_price r = JFloat (Fin 3)"
proof -
  have i: "well_formed_instrument example_instrument"
    by (simp add: example_instrument_def well_formed_instrument_def)
  have s: "well_formed_snapshot
      [(''best_bid_price'', JFloat (Fin 2)), (''best_ask_price'', JFloat (Fin 4))]"
    by (simp add: well_formed_snapshot_def group_ok_def side_ok_def price_ok_def)
  from mid_price_mean_of_nonzero_sides[OF i s, of example_time "JStr ''BTC-27DEC24-100000-C''"]
  obtain r where r: "make_record example_time (JStr ''BTC-27DEC24-100000-C'') example_instrument
        (JObj [(''best_bid_price'', JFloat (Fin 2)), (''best_ask_price'', JFloat (Fin 4))])
        = Inr r"
    and e: "\<forall>b a. map_of [(''best_bid_price'', JFloat (Fin 2)),
              (''best_ask_price'', JFloat (Fin 4))] ''best_bid_price'' = Some (JFloat (Fin b))
          \<and> map_of [(''best_bid_price'', JFloat (Fin 2)),
              (''best_ask_price'', JFloat (Fin 4))] ''best_ask_price'' = Some (JFloat (Fin a))
          \<and> b \<noteq> 0 \<and> a \<noteq> 0
          \<and> (b + a = 0
              \<or> round_double (b + a) = Fin (b + a)
                \<and> round_double ((b + a) / 2) = Fin ((b + a) / 2))
          \<longrightarrow> mid_price r = JFloat (Fin ((b + a) / 2))"
    by blast
  from e[rule_format, of 2 4] have "mid_price r = JFloat (Fin 3)"
    by (simp add: round_double_examples)
  with r show ?thesis by blast
qed

text \<open>
  C1 as stated fails twice. With best bid 0 and best ask 5 both sides are present, and the
  mid price of the record is null, not the mean. With the floats nearest to 0.1 and to 0.2
  as bid and ask, the mid price is the float above 0.15, not the exact mean of the two
  stored sides.
\<close>

theorem mid_price_zero_bid_counterexample:
  "(\<exists>r. make_record example_time (JStr ''BTC-27DEC24-100000-C'') example_instrument
         (JObj [(''best_bid_price'', JFloat (Fin 0)), (''best_ask_price'', JFloat (Fin 5))])
         = Inr r
       \<and> mid_price r = JNull)
   \<and> (\<exists>r. make_record example_time (JStr ''BTC-27DEC24-100000-C'') example_instrument
         (JObj [(''best_bid_price'', JFloat tenth), (''best_ask_price'', JFloat fifth)])
         = Inr r
       \<and> mid_price r = JFloat (Fin (5404319552844596 / 2 ^ 55))
       \<and> mid_price r
          \<noteq> JFloat (Fin ((3602879701896397 / 2 ^ 55 + 3602879701896397 / 2 ^ 54) / 2)))"
proof -
  have i: "well_formed_instrument (JObj
      [(''instrument_name'', JStr ''BTC-27DEC24-100000-C''),
       (''expiration_timestamp'', JInt 1735286400000),
       (''strike'', JInt 100000), (''option_type'', JStr ''call'')])"
    by (simp add: well_formed_instrument_def)
  have s: "well_formed_snapshot
      [(''best_bid_price'', JFloat (Fin 0)), (''best_ask_price'', JFloat (Fin 5))]"
    "well_formed_snapshot [(''best_bid_price'', JFloat tenth), (''best_ask_price'', JFloat fifth)]"
    by (simp_all add: well_formed_snapshot_def group_ok_def side_ok_def price_ok_def)
  have z: "mid_value [(''best_bid_price'', JFloat (Fin 0)), (''best_ask_price'', JFloat (Fin 5))]
      = JNull"
    by (simp add: mid_value_def)
  have t: "mid_value [(''best_bid_price'', JFloat tenth), (''best_ask_price'', JFloat fifth)]
      = JFloat (Fin (5404319552844596 / 2 ^ 55))"
    by (simp add: mid_value_def tenth_def fifth_def py_half_def eval_round)
  show ?thesis
    unfolding example_instrument_def make_record_obj[OF i s(1)] make_record_obj[OF i s(2)]
    by (simp add: z t)
qed

section \<open>Absent and zero fields\<close>

text \<open>
  C2 (as the code has it). For a well-formed instrument and a well-formed order book the
  record is assembled. Every field read with \<^verbatim>\<open>.get\<close> holds the upstream value when
  the field is present (a zero stays a zero) and null when it is absent; the Greeks and the
  24h volume are read in the same way inside their group. The bid and ask price hold the
  upstream value only when it is non-zero: a best bid or best ask that is absent, null or
  zero is stored as null.
\<close>

theorem fields_pass_through_except_zero_sides:
  assumes "well_formed_instrument instrument" and "well_formed_snapshot kvs"
  shows "\<exists>r. make_record now name instrument (JObj kvs) = Inr r
    \<and> mark_price r = get_default kvs ''mark_price'' JNull
    \<and> last_price r = get_default kvs ''last_price'' JNull
    \<and> mark_iv r = get_default kvs ''mark_iv'' JNull
    \<and> bid_iv r = get_default kvs ''bid_iv'' JNull
    \<and> ask_iv r = get_default kvs ''ask_iv'' JNull
    \<and> open_interest r = get_default kvs ''open_interest'' JNull
    \<and> underlying_price r = get_default kvs ''underlying_price'' JNull
    \<and> underlying_index r = get_default kvs ''underlying_index'' JNull
    \<and> delta r = nested_default kvs ''greeks'' ''delta''
    \<and> gamma r = nested_default kvs ''greeks'' ''gamma''
    \<and> vega r = nested_default kvs ''greeks'' ''vega''
    \<and> theta r = nested_default kvs ''greeks'' ''theta''
    \<and> rho r = nested_default kvs ''greeks'' ''rho''
    \<and> volume_24h r = nested_default kvs ''stats'' ''volume''
    \<and> bid_price r = nonzero_or_null (get_default kvs ''best_bid_price'' JNull)
    \<and> ask_price r = nonzero_or_null (get_default kvs ''best_ask_price'' JNull)
    \<and> (\<forall>v. map_of kvs ''mark_price'' = Some v \<longrightarrow> mark_price r = v)
    \<and> (map_of kvs ''mark_price'' = Some (JFloat (Fin 0)) \<longrightarrow> mark_price r = JFloat (Fin 0))
    \<and> (map_of kvs ''mark_price'' = Some (JInt 0) \<longrightarrow> mark_price r = JInt 0)
    \<and> (map_of kvs ''mark_price'' = None \<longrightarrow> mark_price r = JNull)
    \<and> (map_of kvs ''best_bid_price'' \<in> {Some (JInt 0), Some (JFloat (Fin 0))}
          \<longrightarrow> bid_price r = JNull)
    \<and> (map_of kvs ''best_ask_price'' \<in> {Some (JInt 0), Some (JFloat (Fin 0))}
          \<longrightarrow> ask_price r = JNull)"
proof -
  from assms(1) obtain ikvs where i: "instrument = JObj ikvs"
    by (cases instrument) (simp_all add: well_formed_instrument_def)
  show ?thesis
    unfolding i make_record_obj[OF assms(1)[unfolded i] assms(2)]
    by (auto simp: nonzero_or_null_def get_default_def)
qed

theorem fields_pass_through_except_zero_sides_witness:
  "\<exists>r. make_record example_time (JStr ''BTC-27DEC24-100000-C'') example_instrument
         (JObj [(''mark_price'', JFloat (Fin 0)), (''best_bid_price'', JFloat (Fin 2)),
                (''greeks'', JObj [(''delta'', JInt 0)])]) = Inr r
       \<and> mark_price r = JFloat (Fin 0) \<and> last_price r = JNull \<and> bid_price r = JFloat (Fin 2)
       \<and> ask_price r = JNull \<and> delta r = JInt 0 \<and> gamma r = JNull \<and> volume_24h r = JNull"
  using fields_pass_through_except_zero_sides[of example_instrument
      "[(''mark_price'', JFloat (Fin 0)), (''best_bid_price'', JFloat (Fin 2)),
        (''greeks'', JObj [(''delta'', JInt 0)])]"
      example_time "JStr ''BTC-27DEC24-100000-C''"]
  by (auto simp add: example_instrument_def well_formed_instrument_def
      well_formed_snapshot_def group_ok_def side_ok_def price_ok_def nonzero_or_null_def
      get_default_def nested_default_def)

text \<open>
  C2 as stated fails: a best bid present with value zero is stored as null, not as zero.
\<close>

theorem zero_bid_stored_as_null_counterexample:
  "\<exists>r. make_record example_time (JStr ''BTC-27DEC24-100000-C'') example_instrument
         (JObj [(''best_bid_price'', JFloat (Fin 0)), (''best_ask_price'', JFloat (Fin 5))])
         = Inr r
       \<and> bid_price r = JNull \<and> bid_price r \<noteq> JFloat (Fin 0)"
  by (simp add: make_record_obj example_instrument_def well_formed_instrument_def
      well_formed_snapshot_def group_ok_def side_ok_def price_ok_def get_default_def)

section \<open>Instrument discovery\<close>

text \<open>
  C3 (as the code has it). \<^verbatim>\<open>get_instruments\<close> never raises. When the request fails,
  the status is an error, the body is not JSON, the body is not a dictionary or has no
  \<^verbatim>\<open>result\<close>, it returns the empty list; otherwise it returns the \<^verbatim>\<open>result\<close> of the
  body. A failed discovery and an exchange that lists no instrument give the same value.
\<close>

theorem get_instruments_empty_on_failure:
  "get_instruments w currency kind expired =
     (case instruments_reply w currency kind (if expired then ''true'' else ''false'') of
        Body (JObj kvs) \<Rightarrow> get_default kvs ''result'' (JArr [])
      | _ \<Rightarrow> JArr [])"
  by (simp add: get_instruments_def get_default_def
      split: http_response.splits json.splits option.splits)

text \<open>
  C3 as stated fails: a network failure does not surface as an error; the caller gets
  the same empty list as from an exchange that reports zero instruments.
\<close>

theorem discovery_failure_looks_empty_counterexample:
  "get_instruments (example_world NetworkFailure (\<lambda>idx. NetworkFailure)) ''BTC'' ''option'' False
     = JArr []
   \<and> get_instruments (example_world (Body (JObj [(''result'', JArr [])])) (\<lambda>idx. NetworkFailure))
       ''BTC'' ''option'' False = JArr []"
  by (simp add: get_instruments_def example_world_def)

section \<open>Appending to a partition\<close>

lemma map_of_update [simp]:
  "map_of (AList.update k v fs) = (map_of fs)(k \<mapsto> v)"
  by (rule update_conv')

text \<open>
  C8. With an empty batch \<^verbatim>\<open>save_to_parquet\<close> prints ``No data to save'', returns
  \<^verbatim>\<open>None\<close> without raising, and leaves the store as it was, whatever it held.
\<close>

theorem save_empty_batch_writes_nothing:
  "save_to_parquet currency now fault fs [] =
     \<lparr>returned = Inr None, store_after = fs, printed = [NoDataToSave]\<rparr>"
  by (simp add: save_to_parquet_def)

lemma digit_char_simps:
  "digit_char 0 = CHR ''0''" "digit_char 1 = CHR ''1''" "digit_char 2 = CHR ''2''"
  "digit_char 3 = CHR ''3''" "digit_char 4 = CHR ''4''" "digit_char 5 = CHR ''5''"
  "digit_char 6 = CHR ''6''" "digit_char 7 = CHR ''7''" "digit_char 8 = CHR ''8''"
  "digit_char 9 = CHR ''9''" "digit_char (Suc 0) = CHR ''1''"
  by (simp_all add: digit_char_def char_of_def bit_Suc_0_iff)

lemma digits_2: "digits 2 n = [digit_char (n div 10 mod 10), digit_char (n mod 10)]"
proof -
  have h: "digits (Suc (Suc 0)) n = [digit_char (n div 10 mod 10), digit_char (n mod 10)]"
    by simp
  have e: "(2::nat) = Suc (Suc 0)" by simp
  show ?thesis by (subst e) (rule h)
qed

lemma digits_4:
  "digits 4 n = [digit_char (n div 1000 mod 10), digit_char (n div 100 mod 10),
                 digit_char (n div 10 mod 10), digit_char (n mod 10)]"
proof -
  have h: "digits (Suc (Suc (Suc (Suc 0)))) n =
      [digit_char (n div 1000 mod 10), digit_char (n div 100 mod 10),
       digit_char (n div 10 mod 10), digit_char (n mod 10)]"
    by simp
  have e: "(4::nat) = Suc (Suc (Suc (Suc 0)))" by simp
  show ?thesis by (subst e) (rule h)
qed

lemma example_filename:
  "get_daily_filename ''BTC'' example_time None = ''BTC_options_20240301.parquet''"
  by (simp add: get_daily_filename_def strftime_Ymd_def example_time_def digits_2 digits_4
      digit_char_simps)

text \<open>
  C9. Whenever \<^verbatim>\<open>save_to_parquet\<close> fails reading the existing partition file, the store
  is unchanged: the file is rewritten only after the merged frame has been put together.
  Such a failure happens for every non-empty batch when the file of the day cannot be read.
\<close>

theorem read_failure_leaves_store_unchanged:
  "(returned (save_to_parquet currency now fault fs df) = Inl ReadFailed
      \<longrightarrow> store_after (save_to_parquet currency now fault fs df) = fs)
   \<and> (df \<noteq> [] \<and> map_of fs (get_daily_filename currency now None) = Some Unreadable
      \<longrightarrow> save_to_parquet currency now fault fs df =
            \<lparr>returned = Inl ReadFailed, store_after = fs, printed = []\<rparr>)"
  by (auto simp: save_to_parquet_def Let_def file_exists_def read_parquet_def
      write_and_report_def to_parquet_def
      split: option.splits stored_file.splits write_fault.splits)

theorem read_failure_leaves_store_unchanged_witness:
  "returned (save_to_parquet ''BTC'' example_time NoFault
       [(''BTC_options_20240301.parquet'', Unreadable)] [example_row 1]) = Inl ReadFailed
   \<and> store_after (save_to_parquet ''BTC'' example_time NoFault
       [(''BTC_options_20240301.parquet'', Unreadable)] [example_row 1])
     = [(''BTC_options_20240301.parquet'', Unreadable)]"
  using read_failure_leaves_store_unchanged[of "''BTC''" example_time NoFault
      "[(''BTC_options_20240301.parquet'', Unreadable)]" "[example_row 1]"]
  by (simp add: example_filename)

text \<open>
  C4. Two calls of \<^verbatim>\<open>save_to_parquet\<close> made on the same calendar day with non-empty
  batches \<open>B1\<close> and then \<open>B2\<close>, on a store without a file for that day and with both writes
  going through, leave a partition file that holds \<open>B1\<close> followed by \<open>B2\<close>: its length is
  \<open>|B1| + |B2|\<close>, no record is lost and none is dropped as a duplicate.
\<close>

theorem append_twice_concatenates:
  assumes "B1 \<noteq> []" and "B2 \<noteq> []"
    and "year now2 = year now1" and "month now2 = month now1" and "day now2 = day now1"
    and "\<not> file_exists fs (get_daily_filename currency now1 None)"
  shows "let filename = get_daily_filename currency now1 None;
             s1 = save_to_parquet currency now1 NoFault fs B1;
             s2 = save_to_parquet currency now2 NoFault (store_after s1) B2
         in returned s1 = Inr (Some filename) \<and> returned s2 = Inr (Some filename)
            \<and> read_parquet (store_after s1) filename = Inr B1
            \<and> read_parquet (store_after s2) filename = Inr (B1 @ B2)
            \<and> length (B1 @ B2) = length B1 + length B2"
proof -
  have same: "get_daily_filename currency now2 None = get_daily_filename currency now1 None"
    using assms(3-5) by (simp add: get_daily_filename_def strftime_Ymd_def)
  show ?thesis
    using assms(1,2,6)
    by (simp add: save_to_parquet_def Let_def same file_exists_def read_parquet_def
        write_and_report_def to_parquet_def update_conv')
qed

theorem append_twice_concatenates_witness:
  "read_parquet
     (store_after (save_to_parquet ''BTC'' example_time NoFault
        (store_after (save_to_parquet ''BTC'' example_time NoFault [] [example_row 1]))
        [example_row 2, example_row 1]))
     ''BTC_options_20240301.parquet''
   = Inr [example_row 1, example_row 2, example_row 1]"
  using append_twice_concatenates[of "[example_row 1]" "[example_row 2, example_row 1]"
      example_time example_time "[]" "''BTC''"]
  by (simp add: example_filename file_exists_def Let_def)

section \<open>The collection loop on well-formed replies\<close>

lemma collect_step_ok:
  assumes "step_ok w idx instrument"
  shows "collect_step w idx instrument = Inr (record_for w (idx, instrument))"
proof -
  from assms obtain name where n: "subscript instrument ''instrument_name'' = Inr name"
    by (auto simp: step_ok_def split: sum.splits)
  show ?thesis
  proof (cases "truthy (get_orderbook w idx name)")
    case False
    then show ?thesis by (simp add: collect_step_def record_for_def n)
  next
    case True
    with assms n obtain kvs where ob: "get_orderbook w idx name = JObj kvs"
      and wf: "well_formed_instrument instrument" "well_formed_snapshot kvs"
      by (auto simp: step_ok_def split: json.splits)
    from wf(1) obtain ikvs where i: "instrument = JObj ikvs"
      by (cases instrument) (simp_all add: well_formed_instrument_def)
    obtain r where "make_record (clock w idx) name instrument (JObj kvs) = Inr r"
      using make_record_obj[OF wf(1)[unfolded i] wf(2)] unfolding i by blast
    then show ?thesis
      using True by (simp add: collect_step_def record_for_def n ob)
  qed
qed

lemma record_for_has_data:
  assumes "step_ok w idx instrument"
  shows "(record_for w (idx, instrument) \<noteq> None) = has_data w (idx, instrument)"
proof -
  from assms obtain name where n: "subscript instrument ''instrument_name'' = Inr name"
    by (auto simp: step_ok_def split: sum.splits)
  show ?thesis
  proof (cases "truthy (get_orderbook w idx name)")
    case False
    then show ?thesis
      by (simp add: collect_step_def record_for_def has_data_def name_of_def n)
  next
    case True
    with assms n obtain kvs where ob: "get_orderbook w idx name = JObj kvs"
      and wf: "well_formed_instrument instrument" "well_formed_snapshot kvs"
      by (auto simp: step_ok_def split: json.splits)
    from wf(1) obtain ikvs where i: "instrument = JObj ikvs"
      by (cases instrument) (simp_all add: well_formed_instrument_def)
    obtain r where "make_record (clock w idx) name instrument (JObj kvs) = Inr r"
      using make_record_obj[OF wf(1)[unfolded i] wf(2)] unfolding i by blast
    then show ?thesis
      using True by (simp add: collect_step_def record_for_def has_data_def name_of_def n ob)
  qed
qed

lemma make_record_name:
  "make_record now name instrument orderbook = Inr r \<Longrightarrow> instrument_name r = name"
  by (auto simp: make_record_def bind_err_def split: sum.splits)

lemma record_for_name:
  assumes "record_for w (idx, instrument) = Some r"
  shows "instrument_name r = name_of instrument"
proof -
  from assms have c: "collect_step w idx instrument = Inr (Some r)"
    by (auto simp: record_for_def split: sum.splits option.splits)
  then obtain name where n: "subscript instrument ''instrument_name'' = Inr name"
    by (cases "subscript instrument ''instrument_name''") (simp_all add: collect_step_def)
  from c n have "make_record (clock w idx) name instrument (get_orderbook w idx name) = Inr r"
    by (auto simp: collect_step_def Let_def bind_err_def split: if_splits sum.splits)
  then show ?thesis by (simp add: make_record_name name_of_def n)
qed

lemma record_for_without_data:
  "\<not> has_data w (idx, instrument) \<Longrightarrow> record_for w (idx, instrument) = None"
  by (auto simp: record_for_def has_data_def name_of_def collect_step_def Let_def bind_err_def
      split: sum.splits option.splits)

lemma failed_fetch_without_data:
  "json_result (order_book_reply w idx (name_of instrument)) = Inl e
   \<Longrightarrow> \<not> has_data w (idx, instrument)"
  by (simp add: has_data_def get_orderbook_def)

lemma collect_loop_ok:
  "list_all (\<lambda>p. step_ok w (fst p) (snd p)) (List.enumerate idx instruments) \<Longrightarrow>
   collect_loop w idx instruments data =
     Inr (data @ List.map_filter (record_for w) (List.enumerate idx instruments))"
proof (induction instruments arbitrary: idx data)
  case Nil
  then show ?case by (simp add: List.map_filter_simps)
next
  case (Cons instrument rest)
  from Cons.prems have s: "step_ok w idx instrument"
    and r: "list_all (\<lambda>p. step_ok w (fst p) (snd p)) (List.enumerate (Suc idx) rest)"
    by simp_all
  show ?case
    by (cases "record_for w (idx, instrument)")
      (simp_all add: collect_step_ok[OF s] Cons.IH[OF r] List.map_filter_simps)
qed

lemma collect_options_data_ok:
  assumes "get_instruments w currency ''option'' False = JArr instruments"
    and "cycle_ok w instruments"
  shows "collect_options_data w currency =
     Inr (List.map_filter (record_for w) (List.enumerate 0 instruments))"
  using assms collect_loop_ok[of w 0 instruments "[]"]
  by (simp add: collect_options_data_def cycle_ok_def)

lemma length_map_filter_record_for:
  "list_all (\<lambda>p. step_ok w (fst p) (snd p)) ps \<Longrightarrow>
   length (List.map_filter (record_for w) ps) = length (filter (has_data w) ps)"
proof (induction ps)
  case Nil
  then show ?case by (simp add: List.map_filter_simps)
next
  case (Cons p ps)
  obtain i x where p: "p = (i, x)" by (cases p)
  from Cons.prems have s: "step_ok w i x" by (simp add: p)
  from Cons show ?case
    using record_for_has_data[OF s]
    by (cases "record_for w (i, x)") (auto simp: p List.map_filter_simps)
qed

lemma names_map_filter_record_for:
  "list_all (\<lambda>p. step_ok w (fst p) (snd p)) ps \<Longrightarrow>
   map instrument_name (List.map_filter (record_for w) ps)
     = map (\<lambda>p. name_of (snd p)) (filter (has_data w) ps)"
proof (induction ps)
  case Nil
  then show ?case by (simp add: List.map_filter_simps)
next
  case (Cons p ps)
  obtain i x where p: "p = (i, x)" by (cases p)
  from Cons.prems have s: "step_ok w i x" by (simp add: p)
  from Cons show ?case
    using record_for_has_data[OF s] record_for_name[of w i x]
    by (cases "record_for w (i, x)") (auto simp: p List.map_filter_simps)
qed

text \<open>
  C7. In a collection cycle over well-formed replies, a failed fetch and a fetch without
  data produce no record and do not stop the loop: the cycle returns one record for each
  instrument whose fetch brought data and none for the others, so never more records
  than instruments. In a batch of two where the first fetch fails and the second brings a
  snapshot, the cycle returns exactly the record of the second instrument.
\<close>

theorem failed_fetches_are_skipped:
  assumes "get_instruments w currency ''option'' False = JArr instruments"
    and "cycle_ok w instruments"
  shows "\<exists>rows. collect_options_data w currency = Inr rows
    \<and> rows = List.map_filter (record_for w) (List.enumerate 0 instruments)
    \<and> length rows = length (filter (has_data w) (List.enumerate 0 instruments))
    \<and> length rows \<le> length instruments
    \<and> (\<forall>i<length instruments.
          (\<exists>e. json_result (order_book_reply w i (name_of (instruments ! i))) = Inl e)
          \<longrightarrow> record_for w (i, instruments ! i) = None)
    \<and> (\<forall>i<length instruments.
          \<not> has_data w (i, instruments ! i) \<longrightarrow> record_for w (i, instruments ! i) = None)"
proof -
  let ?ps = "List.enumerate 0 instruments"
  have ok: "list_all (\<lambda>p. step_ok w (fst p) (snd p)) ?ps"
    using assms(2) by (simp add: cycle_ok_def)
  have len: "length (List.map_filter (record_for w) ?ps) = length (filter (has_data w) ?ps)"
    by (rule length_map_filter_record_for[OF ok])
  have "length (filter (has_data w) ?ps) \<le> length ?ps" by (rule length_filter_le)
  then have le: "length (List.map_filter (record_for w) ?ps) \<le> length instruments"
    using len by simp
  show ?thesis
    using collect_options_data_ok[OF assms] len le
    by (auto intro: record_for_without_data dest: failed_fetch_without_data)
qed

theorem failed_fetches_are_skipped_witness:
  "\<exists>r. collect_options_data
          (example_world (Body (JObj [(''result'', JArr [example_instrument, example_put])]))
             example_books) ''BTC'' = Inr [r]
       \<and> instrument_name r = JStr ''BTC-27DEC24-90000-P'' \<and> mark_price r = JFloat (Fin 5)"
  using failed_fetches_are_skipped[of
      "example_world (Body (JObj [(''result'', JArr [example_instrument, example_put])]))
         example_books" "''BTC''" "[example_instrument, example_put]"]
  by (simp add: example_world_def example_books_def get_instruments_def cycle_ok_def
      step_ok_def get_orderbook_def example_instrument_def example_put_def
      well_formed_instrument_def well_formed_snapshot_def group_ok_def side_ok_def
      List.map_filter_simps record_for_def collect_step_def make_record_obj get_default_def
      mid_value_def nested_default_def)

text \<open>
  C10. In a collection cycle over well-formed replies, the records come in the order of
  the discovered instruments: the names of the records are the names of the instruments
  whose fetch brought data, in discovery order, hence a subsequence of the discovered
  names.
\<close>

theorem records_follow_discovery_order:
  assumes "get_instruments w currency ''option'' False = JArr instruments"
    and "cycle_ok w instruments"
  shows "\<exists>rows. collect_options_data w currency = Inr rows
    \<and> map instrument_name rows
        = map (\<lambda>p. name_of (snd p)) (filter (has_data w) (List.enumerate 0 instruments))
    \<and> subseq (map instrument_name rows) (map name_of instruments)"
proof -
  let ?ps = "List.enumerate 0 instruments"
  let ?rows = "List.map_filter (record_for w) ?ps"
  have ok: "list_all (\<lambda>p. step_ok w (fst p) (snd p)) ?ps"
    using assms(2) by (simp add: cycle_ok_def)
  have names: "map instrument_name ?rows = map (\<lambda>p. name_of (snd p)) (filter (has_data w) ?ps)"
    by (rule names_map_filter_record_for[OF ok])
  have "subseq (map (\<lambda>p. name_of (snd p)) (filter (has_data w) ?ps))
          (map (\<lambda>p. name_of (snd p)) ?ps)"
    by (rule subseq_map) simp
  moreover have "map (\<lambda>p. name_of (snd p)) ?ps = map name_of instruments"
    by (simp add: map_snd_enumerate flip: map_map[of name_of snd, unfolded comp_def])
  ultimately have "subseq (map instrument_name ?rows) (map name_of instruments)"
    using names by simp
  then show ?thesis
    using collect_options_data_ok[OF assms] names by simp
qed

theorem records_follow_discovery_order_witness:
  "\<exists>rows. collect_options_data
          (example_world
             (Body (JObj [(''result'',
                JArr [example_put, example_instrument, example_instrument])]))
             example_books_gap) ''BTC'' = Inr rows
       \<and> map instrument_name rows = [JStr ''BTC-27DEC24-90000-P'', JStr ''BTC-27DEC24-100000-C'']"
proof -
  let ?w = "example_world
      (Body (JObj [(''result'', JArr [example_put, example_instrument, example_instrument])]))
      example_books_gap"
  let ?xs = "[example_put, example_instrument, example_instrument]"
  have d: "get_instruments ?w ''BTC'' ''option'' False = JArr ?xs"
    by (simp add: example_world_def get_instruments_def)
  have b: "get_orderbook ?w 0 n = JObj [(''mark_price'', JFloat (Fin 5))]"
    "get_orderbook ?w (Suc 0) n = JNull"
    "get_orderbook ?w (Suc (Suc 0)) n = JObj [(''mark_price'', JFloat (Fin 5))]" for n
    by (simp_all add: example_world_def example_books_gap_def get_orderbook_def)
  have s: "well_formed_snapshot [(''mark_price'', JFloat (Fin 5))]"
    by (simp add: well_formed_snapshot_def group_ok_def side_ok_def)
  have i: "well_formed_instrument example_put" "well_formed_instrument example_instrument"
    "subscript example_put ''instrument_name'' = Inr (JStr ''BTC-27DEC24-90000-P'')"
    "subscript example_instrument ''instrument_name'' = Inr (JStr ''BTC-27DEC24-100000-C'')"
    by (simp_all add: example_put_def example_instrument_def well_formed_instrument_def)
  have c: "cycle_ok ?w ?xs"
    by (simp add: cycle_ok_def step_ok_def i b s)
  have f: "map (\<lambda>p. name_of (snd p)) (filter (has_data ?w) (List.enumerate 0 ?xs))
      = [JStr ''BTC-27DEC24-90000-P'', JStr ''BTC-27DEC24-100000-C'']"
    by (simp add: has_data_def name_of_def i b)
  from records_follow_discovery_order[OF d c] f show ?thesis
    by metis
qed

section \<open>Order of partition file names\<close>

lemma of_char_digit_char: "a < 10 \<Longrightarrow> of_char (digit_char a) = 48 + a"
  by (simp add: digit_char_def)

lemma digit_char_less: "a < 10 \<Longrightarrow> b < 10 \<Longrightarrow> (digit_char a < digit_char b) = (a < b)"
  by (simp add: less_char_def of_char_digit_char)

lemma digit_char_eq:
  assumes "a < 10" and "b < 10"
  shows "(digit_char a = digit_char b) = (a = b)"
proof
  assume "digit_char a = digit_char b"
  then have "(of_char (digit_char a) :: nat) = of_char (digit_char b)" by simp
  with assms show "a = b" by (simp add: of_char_digit_char)
qed simp

lemma length_digits [simp]: "length (digits w n) = w"
  by (induction w) simp_all

lemma split_top_digit:
  "(n::nat) mod 10 ^ Suc w = 10 ^ w * (n div 10 ^ w mod 10) + n mod 10 ^ w"
  by (simp only: power_Suc2 mod_mult2_eq)

lemma digits_less: "(digits w a < digits w b) = (a mod 10 ^ w < b mod 10 ^ w)"
proof (induction w)
  case 0
  then show ?case by simp
next
  case (Suc w)
  let ?p = "10 ^ w :: nat"
  have bound: "a mod ?p < ?p" "b mod ?p < ?p" by simp_all
  have "(a mod 10 ^ Suc w < b mod 10 ^ Suc w) =
      (a div ?p mod 10 < b div ?p mod 10
       \<or> a div ?p mod 10 = b div ?p mod 10 \<and> a mod ?p < b mod ?p)"
  proof -
    have "?p * x + r < ?p * y + s \<longleftrightarrow> x < y \<or> x = y \<and> r < s"
      if "r < ?p" "s < ?p" for x y r s :: nat
    proof (cases x y rule: linorder_cases)
      case less
      then have "Suc x \<le> y" by simp
      then have "?p * Suc x \<le> ?p * y" by (rule mult_le_mono2)
      with that less show ?thesis by simp
    next
      case equal
      then show ?thesis by simp
    next
      case greater
      then have "Suc y \<le> x" by simp
      then have "?p * Suc y \<le> ?p * x" by (rule mult_le_mono2)
      with that greater show ?thesis by simp
    qed
    from this[OF bound] show ?thesis
      by (simp only: split_top_digit)
  qed
  then show ?case
    using Suc.IH by (simp add: digit_char_less digit_char_eq del: power_Suc)
qed

lemma digits_eq: "(digits w a = digits w b) = (a mod 10 ^ w = b mod 10 ^ w)"
proof (induction w)
  case 0
  then show ?case by simp
next
  case (Suc w)
  let ?p = "10 ^ w :: nat"
  have "(a mod 10 ^ Suc w = b mod 10 ^ Suc w) =
      (a div ?p mod 10 = b div ?p mod 10 \<and> a mod ?p = b mod ?p)"
  proof
    assume h: "a mod 10 ^ Suc w = b mod 10 ^ Suc w"
    have "a mod 10 ^ Suc w div ?p = a div ?p mod 10" "b mod 10 ^ Suc w div ?p = b div ?p mod 10"
      by (simp_all add: split_top_digit del: power_Suc)
    moreover have "a mod 10 ^ Suc w mod ?p = a mod ?p" "b mod 10 ^ Suc w mod ?p = b mod ?p"
      by (simp_all add: split_top_digit del: power_Suc)
    ultimately show "a div ?p mod 10 = b div ?p mod 10 \<and> a mod ?p = b mod ?p"
      using h by metis
  next
    assume "a div ?p mod 10 = b div ?p mod 10 \<and> a mod ?p = b mod ?p"
    then show "a mod 10 ^ Suc w = b mod 10 ^ Suc w"
      by (simp only: split_top_digit)
  qed
  then show ?case
    using Suc.IH by (simp add: digit_char_eq del: power_Suc)
qed

lemma append_less_same_length:
  fixes a1 a2 b1 b2 :: "'a::linorder list"
  shows "length a1 = length a2 \<Longrightarrow> (a1 @ b1 < a2 @ b2) = (a1 < a2 \<or> a1 = a2 \<and> b1 < b2)"
  by (induction a1 a2 rule: list_induct2) auto

lemma append_less_same_prefix:
  fixes p x y :: "'a::linorder list"
  shows "(p @ x < p @ y) = (x < y)"
  by (induction p) simp_all

lemma strftime_padded:
  "valid_day d \<Longrightarrow> strftime_Ymd d = digits 4 (year d) @ digits 2 (month d) @ digits 2 (day d)"
  by (simp add: strftime_Ymd_def valid_day_def)

lemma strftime_less:
  assumes "valid_day d1" and "valid_day d2"
  shows "(strftime_Ymd d1 < strftime_Ymd d2) = (date_key d1 < date_key d2)"
proof -
  from assms have b: "year d1 < 10 ^ 4" "year d2 < 10 ^ 4" "month d1 < 10 ^ 2"
    "month d2 < 10 ^ 2" "day d1 < 10 ^ 2" "day d2 < 10 ^ 2"
    by (auto simp: valid_day_def valid_date_def days_in_month_def split: if_splits)
  show ?thesis
    unfolding strftime_padded[OF assms(1)] strftime_padded[OF assms(2)] date_key_def
    by (simp only: append_less_same_length length_digits digits_less digits_eq
        mod_less[OF b(1)] mod_less[OF b(2)] mod_less[OF b(3)] mod_less[OF b(4)]
        mod_less[OF b(5)] mod_less[OF b(6)] less_prod_def fst_conv snd_conv)
      (auto simp: less_le)
qed

lemma strftime_eq:
  assumes "valid_day d1" and "valid_day d2"
  shows "(strftime_Ymd d1 = strftime_Ymd d2) = (date_key d1 = date_key d2)"
proof -
  from assms have b: "year d1 < 10 ^ 4" "year d2 < 10 ^ 4" "month d1 < 10 ^ 2"
    "month d2 < 10 ^ 2" "day d1 < 10 ^ 2" "day d2 < 10 ^ 2"
    by (auto simp: valid_day_def valid_date_def days_in_month_def split: if_splits)
  show ?thesis
    unfolding strftime_padded[OF assms(1)] strftime_padded[OF assms(2)] date_key_def
    using b by (simp add: digits_eq del: digits.simps)
qed

lemma filename_less:
  assumes "valid_day d1" and "valid_day d2"
  shows "(get_daily_filename currency d1 None < get_daily_filename currency d2 None)
     = (date_key d1 < date_key d2)"
proof -
  have l: "length (strftime_Ymd d1) = length (strftime_Ymd d2)"
    by (simp add: strftime_padded assms)
  show ?thesis
    by (simp add: get_daily_filename_def append_less_same_prefix
        append_less_same_length[OF l] strftime_less[OF assms]
        flip: append_assoc[of currency "''_options_''"])
qed

lemma filename_eq:
  assumes "valid_day d1" and "valid_day d2"
  shows "(get_daily_filename currency d1 None = get_daily_filename currency d2 None)
     = (date_key d1 = date_key d2)"
  by (simp add: get_daily_filename_def strftime_eq[OF assms])

section \<open>Reading the date back from a file name\<close>

lemma is_digit_digit_char: "a < 10 \<Longrightarrow> is_digit (digit_char a)"
  by (simp add: is_digit_def less_eq_char_def of_char_digit_char)

lemma digit_val_digit_char: "a < 10 \<Longrightarrow> digit_val (digit_char a) = a"
  by (simp add: digit_val_def of_char_digit_char)

lemma digits_are_digits: "c \<in> set (digits w n) \<Longrightarrow> is_digit c"
  by (induction w) (auto simp: is_digit_digit_char)

lemma is_digit_not_separator: "is_digit c \<Longrightarrow> c \<noteq> CHR ''_'' \<and> c \<noteq> CHR ''.''"
  by (auto simp: is_digit_def less_eq_char_def)

lemma strftime_chars:
  "valid_day d \<Longrightarrow> c \<in> set (strftime_Ymd d) \<Longrightarrow> c \<noteq> CHR ''_'' \<and> c \<noteq> CHR ''.''"
  by (auto simp: strftime_padded dest!: digits_are_digits is_digit_not_separator)

lemma match_month_digits:
  assumes "1 \<le> m" and "m \<le> 12"
  shows "\<exists>rest. match_month (digits 2 m @ s) = (m, s) # rest"
proof -
  from assms have "m = 1 \<or> m = 2 \<or> m = 3 \<or> m = 4 \<or> m = 5 \<or> m = 6 \<or> m = 7 \<or> m = 8 \<or> m = 9
      \<or> m = 10 \<or> m = 11 \<or> m = 12"
    by arith
  then show ?thesis
    by (elim disjE) (simp_all add: digits_2 digit_char_simps match_month_def digit_val_def)
qed

lemma match_day_digits:
  assumes "1 \<le> d" and "d \<le> 31"
  shows "\<exists>rest. match_day (digits 2 d @ s) = (d, s) # rest"
proof -
  consider "d < 10" | "10 \<le> d" "d < 30" | "d = 30" | "d = 31"
    using assms by arith
  then show ?thesis
  proof cases
    case 1
    with assms have "d = 1 \<or> d = 2 \<or> d = 3 \<or> d = 4 \<or> d = 5 \<or> d = 6 \<or> d = 7 \<or> d = 8 \<or> d = 9"
      by arith
    then show ?thesis
      by (elim disjE) (simp_all add: digits_2 digit_char_simps match_day_def digit_val_def)
  next
    case 2
    then have t: "d div 10 = 1 \<or> d div 10 = 2" by arith
    have u: "d mod 10 < 10" by simp
    have v: "10 * (d div 10) + d mod 10 = d" by simp
    have w: "digit_val CHR ''1'' = 1" "digit_val CHR ''2'' = 2"
      by (simp_all add: digit_val_def)
    from t v show ?thesis
      by (elim disjE)
        (simp_all add: digits_2 digit_char_simps match_day_def is_digit_digit_char[OF u]
          digit_val_digit_char[OF u] w)
  next
    case 3
    then show ?thesis
      by (simp add: digits_2 digit_char_simps match_day_def digit_val_def)
  next
    case 4
    then show ?thesis
      by (simp add: digits_2 digit_char_simps match_day_def digit_val_def)
  qed
qed

lemma year_from_digits:
  assumes "y \<le> 9999"
  shows "1000 * (y div 1000 mod 10) + 100 * (y div 100 mod 10) + 10 * (y div 10 mod 10)
      + y mod 10 = (y::nat)"
proof -
  have a: "y div 1000 mod 10 = y div 1000" using assms by simp
  have b: "y div 100 = 10 * (y div 1000) + y div 100 mod 10"
    using div_mult_mod_eq[of "y div 100" 10] by (simp add: div_mult2_eq[symmetric])
  have c: "y div 10 = 10 * (y div 100) + y div 10 mod 10"
    using div_mult_mod_eq[of "y div 10" 10] by (simp add: div_mult2_eq[symmetric])
  have d: "y = 10 * (y div 10) + y mod 10" by simp
  show ?thesis using a b c d by linarith
qed

lemma strptime_strftime:
  assumes "valid_day d"
  shows "strptime_Ymd (strftime_Ymd d) = Inr (midnight (year d) (month d) (day d))"
proof -
  from assms have v: "valid_date (year d) (month d) (day d)" by (simp add: valid_day_def)
  then have m: "1 \<le> month d" "month d \<le> 12" and dd: "1 \<le> day d" "day d \<le> 31"
    and y: "year d \<le> 9999"
    by (auto simp: valid_date_def days_in_month_def split: if_splits)
  obtain r1 where r1: "match_month (digits 2 (month d) @ digits 2 (day d))
      = (month d, digits 2 (day d)) # r1"
    using match_month_digits[OF m] by blast
  obtain r2 where r2: "match_day (digits 2 (day d)) = (day d, []) # r2"
    using match_day_digits[OF dd, of "[]"] by auto
  have dg: "is_digit (digit_char (year d div 1000 mod 10))"
    "is_digit (digit_char (year d div 100 mod 10))"
    "is_digit (digit_char (year d div 10 mod 10))"
    "is_digit (digit_char (year d mod 10))"
    by (simp_all add: is_digit_digit_char)
  have dv: "digit_val (digit_char (year d div 1000 mod 10)) = year d div 1000 mod 10"
    "digit_val (digit_char (year d div 100 mod 10)) = year d div 100 mod 10"
    "digit_val (digit_char (year d div 10 mod 10)) = year d div 10 mod 10"
    "digit_val (digit_char (year d mod 10)) = year d mod 10"
    by (simp_all add: digit_val_digit_char)
  show ?thesis
    unfolding strftime_padded[OF assms] strptime_Ymd_def
    by (simp add: digits_4 dg dv r1 r2 year_from_digits[OF y] v Let_def del: digits.simps)
qed

lemma after_last_append:
  assumes "\<forall>x\<in>set t. x \<noteq> c"
  shows "after_last c (s @ c # t) = t"
proof -
  have "takeWhile (\<lambda>x. x \<noteq> c) (rev t @ c # rev s) = rev t"
    using assms by (simp add: takeWhile_tail)
  then show ?thesis by (simp add: after_last_def)
qed

lemma stem_append:
  assumes "\<forall>x\<in>set t. x \<noteq> CHR ''.''" and "b \<noteq> []" and "t \<noteq> []"
  shows "stem (b @ CHR ''.'' # t) = b"
proof -
  have a: "after_last CHR ''.'' (b @ CHR ''.'' # t) = t"
    by (rule after_last_append) (rule assms(1))
  have i: "length (b @ CHR ''.'' # t) - length t - 1 = length b" by simp
  show ?thesis
    unfolding stem_def a i using assms(2,3) by (simp add: Let_def)
qed

lemma stem_of_filename:
  "stem (get_daily_filename currency d None) = currency @ ''_options_'' @ strftime_Ymd d"
proof -
  have "stem ((currency @ ''_options_'' @ strftime_Ymd d) @ CHR ''.'' # ''parquet'')
      = currency @ ''_options_'' @ strftime_Ymd d"
    by (rule stem_append) simp_all
  then show ?thesis by (simp add: get_daily_filename_def)
qed

lemma date_part_of_filename:
  assumes "valid_day d"
  shows "after_last CHR ''_'' (stem (get_daily_filename currency d None)) = strftime_Ymd d"
proof -
  have "after_last CHR ''_'' ((currency @ ''_options'') @ CHR ''_'' # strftime_Ymd d)
      = strftime_Ymd d"
    by (rule after_last_append) (auto dest: strftime_chars[OF assms])
  then show ?thesis by (simp add: stem_of_filename)
qed

lemma glob_match_filename:
  assumes "valid_day d"
  shows "glob_match currency (get_daily_filename currency d None)"
proof -
  have l: "length (strftime_Ymd d) = 8" by (simp add: strftime_padded[OF assms])
  show ?thesis
    by (simp add: glob_match_def get_daily_filename_def Let_def l)
qed

section \<open>Loading a store of partitions\<close>

lemma keep_file_partition:
  assumes "valid_day d"
  shows "keep_file start_date end_date (get_daily_filename currency d None)
     = Inr (in_range start_date end_date d)"
  by (cases start_date; cases end_date)
    (simp_all add: keep_file_def in_range_def date_part_of_filename[OF assms]
      strptime_strftime[OF assms])

lemma load_loop_partitions:
  assumes "\<forall>p\<in>set ps. valid_day (fst p)
      \<and> map_of fs (get_daily_filename currency (fst p) None) = Some (Parquet (snd p))"
  shows "load_loop fs start_date end_date
       (map (\<lambda>p. get_daily_filename currency (fst p) None) ps) dfs
     = Inr (dfs @ map snd (filter (\<lambda>p. in_range start_date end_date (fst p)) ps))"
  using assms
proof (induction ps arbitrary: dfs)
  case Nil
  then show ?case by simp
next
  case (Cons p ps)
  from Cons.prems have v: "valid_day (fst p)"
    and r: "read_parquet fs (get_daily_filename currency (fst p) None) = Inr (snd p)"
    by (simp_all add: read_parquet_def)
  from Cons.prems have rest: "\<forall>p\<in>set ps. valid_day (fst p)
      \<and> map_of fs (get_daily_filename currency (fst p) None) = Some (Parquet (snd p))"
    by simp
  show ?case
    by (simp add: keep_file_partition[OF v] r Cons.IH[OF rest])
qed

lemma filename_le:
  assumes "valid_day d1" and "valid_day d2"
  shows "(get_daily_filename currency d1 None \<le> get_daily_filename currency d2 None)
     = (date_key d1 \<le> date_key d2)"
  by (simp add: le_less filename_less[OF assms] filename_eq[OF assms])

lemma sorted_filenames:
  assumes "\<forall>p\<in>set parts. valid_day (fst p)"
  shows "sort (map (\<lambda>p. get_daily_filename currency (fst p) None) parts)
     = map (\<lambda>p. get_daily_filename currency (fst p) None)
         (sort_key (\<lambda>p. date_key (fst p)) parts)"
proof (rule properties_for_sort)
  let ?ys = "sort_key (\<lambda>p. date_key (fst p)) parts"
  show "mset (map (\<lambda>p. get_daily_filename currency (fst p) None) ?ys)
      = mset (map (\<lambda>p. get_daily_filename currency (fst p) None) parts)"
    by simp
  have "sorted (map (\<lambda>p. date_key (fst p)) ?ys)" by (rule sorted_sort_key)
  then have "sorted_wrt (\<lambda>p q. date_key (fst p) \<le> date_key (fst q)) ?ys"
    by (simp add: sorted_map)
  then have "sorted_wrt (\<lambda>p q. get_daily_filename currency (fst p) None
      \<le> get_daily_filename currency (fst q) None) ?ys"
  proof (rule sorted_wrt_mono_rel[rotated])
    fix p q
    assume "p \<in> set ?ys" "q \<in> set ?ys" "date_key (fst p) \<le> date_key (fst q)"
    with assms show "get_daily_filename currency (fst p) None
        \<le> get_daily_filename currency (fst q) None"
      by (simp add: filename_le)
  qed
  then show "sorted (map (\<lambda>p. get_daily_filename currency (fst p) None) ?ys)"
    by (simp add: sorted_map)
qed

lemma map_of_partition_store:
  assumes "\<forall>p\<in>set parts. valid_day (fst p)"
    and "distinct (map (\<lambda>p. date_key (fst p)) parts)"
    and "p \<in> set parts"
  shows "map_of (partition_store currency parts) (get_daily_filename currency (fst p) None)
     = Some (Parquet (snd p))"
proof (rule map_of_is_SomeI)
  from assms(2) have d: "distinct parts" and i: "inj_on (\<lambda>p. date_key (fst p)) (set parts)"
    by (simp_all add: distinct_map)
  have "inj_on (\<lambda>p. get_daily_filename currency (fst p) None) (set parts)"
  proof (rule inj_onI)
    fix x y
    assume h: "x \<in> set parts" "y \<in> set parts"
      "get_daily_filename currency (fst x) None = get_daily_filename currency (fst y) None"
    with assms(1) have "date_key (fst x) = date_key (fst y)"
      by (simp add: filename_eq)
    with i h show "x = y" by (simp add: inj_on_def)
  qed
  with d show "distinct (map fst (partition_store currency parts))"
    by (simp add: partition_store_def distinct_map comp_def)
  from assms(3) show "(get_daily_filename currency (fst p) None, Parquet (snd p))
      \<in> set (partition_store currency parts)"
    by (auto simp: partition_store_def)
qed

lemma load_data_partition_store:
  assumes "\<forall>p\<in>set parts. valid_day (fst p)"
    and "distinct (map (\<lambda>p. date_key (fst p)) parts)"
  shows "load_data currency (partition_store currency parts) start_date end_date
     = Inr (concat (map snd (filter (\<lambda>p. in_range start_date end_date (fst p))
              (sort_key (\<lambda>p. date_key (fst p)) parts))))"
proof -
  let ?f = "\<lambda>p. get_daily_filename currency (fst p) None"
  let ?ys = "sort_key (\<lambda>p. date_key (fst p)) parts"
  have names: "map fst (partition_store currency parts) = map ?f parts"
    by (simp add: partition_store_def comp_def)
  have all: "filter (glob_match currency) (map ?f parts) = map ?f parts"
    using assms(1) by (simp add: glob_match_filename)
  have files: "sort (filter (glob_match currency) (map fst (partition_store currency parts)))
      = map ?f ?ys"
    by (simp only: names all sorted_filenames[OF assms(1)])
  have "\<forall>p\<in>set ?ys. valid_day (fst p)
      \<and> map_of (partition_store currency parts) (?f p) = Some (Parquet (snd p))"
    using assms by (simp add: map_of_partition_store)
  then have loop: "load_loop (partition_store currency parts) start_date end_date
      (map ?f ?ys) [] = Inr ([] @ map snd (filter (\<lambda>p. in_range start_date end_date (fst p)) ?ys))"
    by (rule load_loop_partitions)
  show ?thesis
    unfolding load_data_def files
    by (simp add: Let_def loop)
qed

section \<open>Partition order and date ranges\<close>

lemma example_filename_earlier:
  "get_daily_filename ''BTC'' example_earlier None = ''BTC_options_20240115.parquet''"
  by (simp add: get_daily_filename_def strftime_Ymd_def example_earlier_def digits_2 digits_4
      digit_char_simps)

lemma example_store_partitions:
  "partition_store ''BTC'' [(example_time, [example_row 1]), (example_earlier, [example_row 2])]
     = example_store"
  by (simp add: partition_store_def example_store_def example_filename
      example_filename_earlier)

lemma example_days:
  "valid_day example_time" "valid_day example_earlier"
  "date_key example_time = (2024, 3, 1)" "date_key example_earlier = (2024, 1, 15)"
  by (simp_all add: valid_day_def valid_date_def days_in_month_def date_key_def
      example_time_def example_earlier_def)

lemma example_sorted:
  "sort_key (\<lambda>p. date_key (fst p))
     [(example_time, [example_row 1]), (example_earlier, [example_row 2])]
   = [(example_earlier, [example_row 2]), (example_time, [example_row 1])]"
  by (simp add: example_days)

lemma in_range_dates:
  assumes "date_bound start_date" and "date_bound end_date"
  shows "in_range start_date end_date d = within_dates start_date end_date d"
  using assms
  by (cases start_date; cases end_date)
    (auto simp: in_range_def within_dates_def date_bound_def dt_less_def dt_key_def
      midnight_def date_key_def less_prod_def less_eq_prod_def)

text \<open>
  C5. For two dates of the same currency, in the years from 1000 on, the earlier date is
  the one whose partition file name comes first in the lexicographic order of strings. \<^verbatim>\<open>load_data\<close>
  without a date filter reads a directory of readable partitions of distinct days in
  ascending order of their dates, whatever the order in which the files were created,
  and returns their rows concatenated in that order.
\<close>

theorem filenames_sort_in_calendar_order:
  "(valid_day d1 \<and> valid_day d2 \<longrightarrow>
      (date_key d1 < date_key d2)
        = (get_daily_filename currency now (Some d1) < get_daily_filename currency now (Some d2)))
   \<and> ((\<forall>p\<in>set parts. valid_day (fst p)) \<and> distinct (map (\<lambda>p. date_key (fst p)) parts) \<longrightarrow>
        load_data currency (partition_store currency parts) None None
          = Inr (concat (map snd (sort_key (\<lambda>p. date_key (fst p)) parts))))"
proof -
  have n: "get_daily_filename currency now (Some d) = get_daily_filename currency d None" for d
    by (simp add: get_daily_filename_def)
  have "in_range None None d" for d by (simp add: in_range_def)
  then show ?thesis
    by (auto simp: n filename_less load_data_partition_store)
qed

theorem filenames_sort_in_calendar_order_witness:
  "get_daily_filename ''BTC'' example_time (Some example_earlier)
     < get_daily_filename ''BTC'' example_time (Some example_time)
   \<and> load_data ''BTC'' example_store None None = Inr [example_row 2, example_row 1]"
  using filenames_sort_in_calendar_order[of example_earlier example_time "''BTC''" example_time
      "[(example_time, [example_row 1]), (example_earlier, [example_row 2])]"]
  by (simp add: example_days example_store_partitions example_sorted)

text \<open>
  C6. Over a directory of readable partitions of distinct days, \<^verbatim>\<open>load_data\<close> with a
  range given by calendar dates returns, in ascending date order, exactly the rows of the
  partitions whose date lies between the start date and the end date, both included: a
  partition dated on the start date or on the end date is read, one outside is not. When
  no partition is in the range, and when there is no partition at all, the result is the
  empty frame and not an error.
\<close>

theorem load_returns_partitions_within_dates:
  assumes "\<forall>p\<in>set parts. valid_day (fst p)"
    and "distinct (map (\<lambda>p. date_key (fst p)) parts)"
    and "date_bound start_date" and "date_bound end_date"
  shows "load_data currency (partition_store currency parts) start_date end_date
       = Inr (concat (map snd (filter (\<lambda>p. within_dates start_date end_date (fst p))
                (sort_key (\<lambda>p. date_key (fst p)) parts))))
    \<and> ((\<forall>p\<in>set parts. \<not> within_dates start_date end_date (fst p)) \<longrightarrow>
          load_data currency (partition_store currency parts) start_date end_date = Inr [])
    \<and> load_data currency [] start_date end_date = Inr []"
proof -
  have "filter (\<lambda>p. within_dates start_date end_date (fst p))
      (sort_key (\<lambda>p. date_key (fst p)) parts) = []"
    if "\<forall>p\<in>set parts. \<not> within_dates start_date end_date (fst p)"
    using that by (simp add: filter_empty_conv)
  moreover have "load_data currency [] start_date end_date = Inr []"
    by (simp add: load_data_def)
  ultimately show ?thesis
    by (simp add: load_data_partition_store[OF assms(1,2)] in_range_dates[OF assms(3,4)])
qed

theorem load_returns_partitions_within_dates_witness:
  "load_data ''BTC'' example_store (Some example_earlier) (Some example_earlier)
     = Inr [example_row 2]
   \<and> load_data ''BTC'' example_store (Some example_earlier) None
     = Inr [example_row 2, example_row 1]"
proof -
  have r: "within_dates (Some example_earlier) (Some example_earlier) example_earlier"
    "\<not> within_dates (Some example_earlier) (Some example_earlier) example_time"
    "within_dates (Some example_earlier) None example_earlier"
    "within_dates (Some example_earlier) None example_time"
    by (simp_all add: within_dates_def example_days)
  have v: "\<forall>p\<in>set [(example_time, [example_row 1]), (example_earlier, [example_row 2])].
      valid_day (fst p)"
    by (simp add: example_days)
  have d: "distinct (map (\<lambda>p. date_key (fst p))
      [(example_time, [example_row 1]), (example_earlier, [example_row 2])])"
    by (simp add: example_days)
  have b: "date_bound (Some example_earlier)" "date_bound None"
    by (simp_all add: date_bound_def example_earlier_def)
  note x = load_returns_partitions_within_dates[OF v d b(1) b(1), of "''BTC''",
      unfolded example_store_partitions example_sorted]
  note y = load_returns_partitions_within_dates[OF v d b(1) b(2), of "''BTC''",
      unfolded example_store_partitions example_sorted]
  from x y show ?thesis
    by (simp add: r)
qed

text \<open>
  A start bound with a time of day is not a calendar date: midnight of its own day lies
  before it, so the partition of that day is not read. With a period from 1 March 2024 at
  noon to 2 March 2024, the partition dated 1 March 2024 is left out.
\<close>

lemma start_after_midnight_skips_its_day:
  "load_data ''BTC'' [(''BTC_options_20240301.parquet'', Parquet [example_row 1])]
     (Some example_time) (Some (midnight 2024 3 2)) = Inr []"
proof -
  have s: "partition_store ''BTC'' [(example_time, [example_row 1])]
      = [(''BTC_options_20240301.parquet'', Parquet [example_row 1])]"
    by (simp add: partition_store_def example_filename)
  have r: "\<not> in_range (Some example_time) (Some (midnight 2024 3 2)) example_time"
    by (simp add: in_range_def dt_less_def dt_key_def midnight_def example_time_def)
  have "load_data ''BTC'' (partition_store ''BTC'' [(example_time, [example_row 1])])
      (Some example_time) (Some (midnight 2024 3 2)) = Inr []"
    by (simp add: load_data_partition_store example_days r)
  then show ?thesis unfolding s .
qed

end
